theory Spec2Isabelle
  imports Main "HOL-Library.Word"
begin

unbundle bit_operations_syntax

section \<open>The socket backend of the vchan library (src/vchan/socket.c)\<close>

text \<open>
  The background thread of a channel talks to the operating system (poll, read, write,
  connect, accept) and shares its control block with the application under a mutex.
  The embedding makes both explicit:
  \<^item> every system call, every lock operation and every diagnostic is appended to a list
    of actions, in program order;
  \<^item> what the operating system answers (return value and errno) is read from an
    environment record, one record per loop iteration; the list of records is the fuel
    of a loop, and a loop that has used up its list without leaving is still running
    (\<open>None\<close>);
  \<^item> whenever the thread acquires the mutex, the control block it sees is the one it
    released, changed by whatever the application did in between: a function of the
    environment, about which nothing is assumed.
\<close>

subsection \<open>Constants of the system headers\<close>

datatype errno =
  EAGAIN | EWOULDBLOCK | ECONNRESET | EPIPE | EINTR | ECONNREFUSED | ENOENT | EOTHER nat

type_synonym pollev = "16 word"

definition POLLIN :: pollev where
  "POLLIN = 1"

definition POLLOUT :: pollev where
  "POLLOUT = 4"

definition CONNECT_DELAY_MS :: "32 word" where
  "CONNECT_DELAY_MS = 100"

record timespec =
  tv_sec :: int
  tv_nsec :: int

subsection \<open>The control block\<close>

text \<open>
  Modelled from the spec: the connection states of libvchan.h, which is not among the
  sources: "enum {WAITING, CONNECTED, DISCONNECTED}".
\<close>

datatype vchan_state = VCHAN_WAITING | VCHAN_CONNECTED | VCHAN_DISCONNECTED

text \<open>
  Modelled from the spec: the ring buffer of libvchan_private.h, which is not among the
  sources. A ring has a fixed capacity, a read position and the number of bytes it holds;
  \<open>ring_filled\<close> and \<open>ring_available\<close> are the bytes to read and the room to
  write "only up to the next wrap boundary", and advancing the read position wraps it
  at the end of the buffer. The stored bytes themselves are not modelled.
\<close>

record ring =
  ring_size :: nat
  ring_start :: nat
  ring_count :: nat

definition ring_filled :: "ring \<Rightarrow> int" where
  "ring_filled r = int (min (ring_count r) (ring_size r - ring_start r))"

definition ring_available :: "ring \<Rightarrow> int" where
  "ring_available r =
     (if ring_start r + ring_count r < ring_size r
      then int (ring_size r - (ring_start r + ring_count r))
      else int (ring_size r - ring_count r))"

definition ring_advance_tail :: "ring \<Rightarrow> int \<Rightarrow> ring" where
  "ring_advance_tail r n = r\<lparr>ring_count := ring_count r + nat n\<rparr>"

definition ring_advance_head :: "ring \<Rightarrow> int \<Rightarrow> ring" where
  "ring_advance_head r n =
     r\<lparr>ring_start := (ring_start r + nat n) mod ring_size r,
       ring_count := ring_count r - nat n\<rparr>"

definition ring_ok :: "ring \<Rightarrow> bool" where
  "ring_ok r = (ring_start r < ring_size r \<and> ring_count r \<le> ring_size r)"

text \<open>
  Modelled from the spec: the fields of \<open>libvchan_t\<close> (libvchan_private.h) that socket.c
  uses. A pipe is the pair of its read end and its write end.
\<close>

record libvchan_t =
  state :: vchan_state
  shutdown :: int
  read_ring :: ring
  write_ring :: ring
  socket_fd :: int
  user_event_pipe :: "int \<times> int"
  socket_event_pipe :: "int \<times> int"

subsection \<open>Actions\<close>

datatype action =
    Lock
  | Unlock
  | Poll "(int \<times> pollev) list" int
  | DrainPipe int
  | SockRead int int int errno
  | SockWrite int int int errno
  | AdvanceTail int
  | AdvanceHead int
  | PipeWrite int int
  | SetState vchan_state
  | Perror string
  | Socket int
  | Connect int int errno
  | Nanosleep timespec
  | Fcntl int int
  | Accept int int errno
  | Close int
  | Sigmask int

subsection \<open>libvchan__connect\<close>

definition connect_delay :: timespec where
  "connect_delay = \<lparr>tv_sec = 0, tv_nsec = sint (CONNECT_DELAY_MS * 1000)\<rparr>"

text \<open>The nanoseconds a \<open>timespec\<close> stands for.\<close>

definition timespec_ns :: "timespec \<Rightarrow> int" where
  "timespec_ns ts = tv_sec ts * 1000000000 + tv_nsec ts"

definition O_NONBLOCK :: int where
  "O_NONBLOCK = 2048"

text \<open>
  What the operating system answers to one call of \<open>libvchan__connect\<close>: the descriptor
  (or failure) of \<open>socket\<close>, the result and errno of each \<open>connect\<close> in turn, and the
  result of \<open>fcntl\<close>.
\<close>

record connect_env =
  socket_ret :: int
  connect_rets :: "(int \<times> errno) list"
  connect_fcntl_ret :: int

text \<open>
  The retry loop (lines 117-124). \<open>Some (True, _)\<close>: a connect succeeded;
  \<open>Some (False, _)\<close>: the descriptor was closed after a fatal errno; \<open>None\<close>: every
  answer in the list was consumed and the loop is still retrying.
\<close>

fun connect_loop :: "int \<Rightarrow> (int \<times> errno) list \<Rightarrow> (bool \<times> action list) option" where
  "connect_loop fd [] = None"
| "connect_loop fd ((r, er) # rs) =
     (if r \<noteq> 0 then
        (if er \<noteq> ECONNREFUSED \<and> er \<noteq> ENOENT then
           Some (False, [Connect fd r er, Perror ''connect'', Close fd])
         else
           (case connect_loop fd rs of
              None \<Rightarrow> None
            | Some (ok, tr) \<Rightarrow> Some (ok, [Connect fd r er, Nanosleep connect_delay] @ tr)))
      else Some (True, [Connect fd r er]))"

definition libvchan__connect :: "connect_env \<Rightarrow> (int \<times> action list) option" where
  "libvchan__connect e =
     (let fd = socket_ret e in
      if fd < 0 then Some (- 1, [Socket fd, Perror ''socket''])
      else
        (case connect_loop fd (connect_rets e) of
           None \<Rightarrow> None
         | Some (ok, tr) \<Rightarrow>
             if \<not> ok then Some (- 1, Socket fd # tr)
             else if connect_fcntl_ret e \<noteq> 0 then
               Some (- 1, Socket fd # tr @ [Fcntl fd O_NONBLOCK, Perror ''fcntl socket'', Close fd])
             else Some (fd, Socket fd # tr @ [Fcntl fd O_NONBLOCK])))"

subsection \<open>change_state\<close>

text \<open>
  Lines 274-281. The argument \<open>r\<close> is what the write of the wake byte to the peer-wake
  pipe returns.
\<close>

definition change_state :: "libvchan_t \<Rightarrow> vchan_state \<Rightarrow> int \<Rightarrow> libvchan_t \<times> action list" where
  "change_state ctrl st r =
     (ctrl\<lparr>state := st\<rparr>,
      [Lock, SetState st, PipeWrite (snd (socket_event_pipe ctrl)) r]
      @ (if r \<noteq> 1 then [Perror ''write''] else [])
      @ [Unlock])"

subsection \<open>comm_loop\<close>

text \<open>
  The environment of one iteration of the loop. \<open>app_pre\<close> is what the application did
  to the control block before the lock of line 186 was acquired, \<open>app_wait\<close> what it did
  while the thread was in \<open>poll\<close>, before the lock of line 199. The results of
  \<open>read\<close>, \<open>write\<close> and of the write to the peer-wake pipe are used only if the
  iteration makes the call. \<open>revents0\<close> and \<open>revents1\<close> are the \<open>revents\<close> of the socket
  and of the user-wake pipe after \<open>poll\<close> (after an interrupted \<open>poll\<close> they are
  whatever the array held before).
\<close>

record comm_env =
  app_pre :: "libvchan_t \<Rightarrow> libvchan_t"
  app_wait :: "libvchan_t \<Rightarrow> libvchan_t"
  poll_ret :: int
  poll_errno :: errno
  revents0 :: pollev
  revents1 :: pollev
  read_ret :: int
  read_errno :: errno
  write_ret :: int
  write_errno :: errno
  pipe_ret :: int

text \<open>
  A part of the loop body either returns from \<open>comm_loop\<close> (\<open>Return\<close>, with the
  control block as it is left) or goes on with the locals \<open>done\<close> and \<open>notify\<close> and the
  control block (\<open>Go\<close>).
\<close>

datatype phase = Return libvchan_t | Go int int libvchan_t

text \<open>Lines 187-191: the events asked of \<open>poll\<close> for the socket.\<close>

definition poll_interest :: "libvchan_t \<Rightarrow> pollev" where
  "poll_interest ctrl =
     (let events = 0;
          events = (if ring_available (read_ring ctrl) > 0 then events OR POLLIN else events);
          events = (if ring_filled (write_ring ctrl) > 0 then events OR POLLOUT else events)
      in events)"

text \<open>Lines 209-231: read from the socket into \<open>read_ring\<close>.\<close>

definition sock_read :: "libvchan_t \<Rightarrow> int \<Rightarrow> comm_env \<Rightarrow> int \<Rightarrow> int \<Rightarrow> phase \<times> action list" where
  "sock_read ctrl fd e done notify =
     (if revents0 e AND POLLIN \<noteq> 0 then
        (let size = ring_available (read_ring ctrl) in
         if size > 0 then
           (let count = read_ret e; rd = SockRead fd size count (read_errno e) in
            if count = 0 then
              (Go 1 notify (ctrl\<lparr>read_ring := ring_advance_tail (read_ring ctrl) count\<rparr>),
               [rd, AdvanceTail count])
            else if count < 0 then
              (if read_errno e = EAGAIN \<or> read_errno e = EWOULDBLOCK then
                 (Go done notify (ctrl\<lparr>read_ring := ring_advance_tail (read_ring ctrl) 0\<rparr>),
                  [rd, AdvanceTail 0])
               else if read_errno e = ECONNRESET then
                 (Go 1 notify (ctrl\<lparr>read_ring := ring_advance_tail (read_ring ctrl) 0\<rparr>),
                  [rd, AdvanceTail 0])
               else (Return ctrl, [rd, Perror ''read from socket'', Unlock]))
            else
              (Go done 1 (ctrl\<lparr>read_ring := ring_advance_tail (read_ring ctrl) count\<rparr>),
               [rd, AdvanceTail count]))
         else (Go done notify ctrl, []))
      else (Go done notify ctrl, []))"

text \<open>Lines 233-254: write from \<open>write_ring\<close> into the socket.\<close>

definition sock_write :: "libvchan_t \<Rightarrow> int \<Rightarrow> comm_env \<Rightarrow> int \<Rightarrow> int \<Rightarrow> phase \<times> action list" where
  "sock_write ctrl fd e done notify =
     (if revents0 e AND POLLOUT \<noteq> 0 then
        (let size = ring_filled (write_ring ctrl) in
         if size > 0 then
           (let count = write_ret e; wr = SockWrite fd size count (write_errno e) in
            if count < 0 then
              (if write_errno e = EAGAIN \<or> write_errno e = EWOULDBLOCK then
                 (Go done notify (ctrl\<lparr>write_ring := ring_advance_head (write_ring ctrl) 0\<rparr>),
                  [wr, AdvanceHead 0])
               else if write_errno e = EPIPE then
                 (Go 1 notify (ctrl\<lparr>write_ring := ring_advance_head (write_ring ctrl) 0\<rparr>),
                  [wr, AdvanceHead 0])
               else (Return ctrl, [wr, Perror ''write to socket'', Unlock]))
            else if count > 0 then
              (Go done 1 (ctrl\<lparr>write_ring := ring_advance_head (write_ring ctrl) count\<rparr>),
               [wr, AdvanceHead count])
            else
              (Go done notify (ctrl\<lparr>write_ring := ring_advance_head (write_ring ctrl) count\<rparr>),
               [wr, AdvanceHead count]))
         else (Go done notify ctrl, []))
      else (Go done notify ctrl, []))"

text \<open>Lines 256-263: wake the application if bytes moved.\<close>

definition notify_peer :: "libvchan_t \<Rightarrow> comm_env \<Rightarrow> int \<Rightarrow> int \<Rightarrow> phase \<times> action list" where
  "notify_peer ctrl e done notify =
     (if notify \<noteq> 0 then
        (let wk = PipeWrite (snd (socket_event_pipe ctrl)) (pipe_ret e) in
         if pipe_ret e \<noteq> 1 then (Return ctrl, [wk, Perror ''write'', Unlock])
         else (Go done notify ctrl, [wk]))
      else (Go done notify ctrl, []))"

text \<open>
  One pass through the body of the \<open>while\<close> loop (lines 186-270), entered with
  \<open>done = 0\<close>. \<open>Iter_return\<close>: the function returned from inside the body;
  \<open>Iter_next done\<close>: the body reached its end with this value of \<open>done\<close>.
\<close>

datatype iter_result = Iter_return libvchan_t | Iter_next int libvchan_t

text \<open>Lines 186-194: the interest set, computed under the lock, and the call of \<open>poll\<close>.\<close>

definition poll_actions :: "libvchan_t \<Rightarrow> int \<Rightarrow> action list" where
  "poll_actions ctrl fd =
     [Lock, Unlock,
      Poll [(fd, poll_interest ctrl), (fst (user_event_pipe ctrl), POLLIN)] (- 1)]"

text \<open>Lines 199-204: the lock after \<open>poll\<close>, and the user-wake pipe emptied.\<close>

definition relock_actions :: "libvchan_t \<Rightarrow> comm_env \<Rightarrow> action list" where
  "relock_actions ctrl e =
     Lock # (if revents1 e AND POLLIN \<noteq> 0 then [DrainPipe (fst (user_event_pipe ctrl))] else [])"

definition comm_iter :: "libvchan_t \<Rightarrow> int \<Rightarrow> comm_env \<Rightarrow> iter_result \<times> action list" where
  "comm_iter ctrl0 fd e =
     (let ctrl1 = app_pre e ctrl0;
          tr1 = poll_actions ctrl1 fd;
          ctrl = app_wait e ctrl1
      in
      if poll_ret e < 0 \<and> poll_errno e \<noteq> EINTR then
        (Iter_return ctrl, tr1 @ [Perror ''poll comm_loop''])
      else
        (let shutdown_l = shutdown ctrl;
             tr2 = relock_actions ctrl e
         in
         case sock_read ctrl fd e 0 0 of
           (Return c, tr3) \<Rightarrow> (Iter_return c, tr1 @ tr2 @ tr3)
         | (Go done notify c, tr3) \<Rightarrow>
             (case sock_write c fd e done notify of
                (Return c, tr4) \<Rightarrow> (Iter_return c, tr1 @ tr2 @ tr3 @ tr4)
              | (Go done notify c, tr4) \<Rightarrow>
                  (case notify_peer c e done notify of
                     (Return c, tr5) \<Rightarrow> (Iter_return c, tr1 @ tr2 @ tr3 @ tr4 @ tr5)
                   | (Go done notify c, tr5) \<Rightarrow>
                       (Iter_next
                          (if shutdown_l \<noteq> 0 \<and> ring_filled (write_ring c) = 0 then 1 else done)
                          c,
                        tr1 @ tr2 @ tr3 @ tr4 @ tr5 @ [Unlock])))))"

text \<open>
  The loop (lines 183-272), one environment record per iteration. \<open>Loop_done\<close>: the
  condition \<open>!done\<close> ended the loop; \<open>Loop_return\<close>: a \<open>return\<close> inside the body did;
  \<open>None\<close>: the loop is still running when the records are used up.
\<close>

datatype loop_exit = Loop_done | Loop_return

fun comm_loop :: "libvchan_t \<Rightarrow> int \<Rightarrow> comm_env list
    \<Rightarrow> (loop_exit \<times> libvchan_t \<times> action list) option" where
  "comm_loop ctrl fd [] = None"
| "comm_loop ctrl fd (e # es) =
     (case comm_iter ctrl fd e of
        (Iter_return c, tr) \<Rightarrow> Some (Loop_return, c, tr)
      | (Iter_next done c, tr) \<Rightarrow>
          if done \<noteq> 0 then Some (Loop_done, c, tr)
          else
            (case comm_loop c fd es of
               None \<Rightarrow> None
             | Some (x, c', tr') \<Rightarrow> Some (x, c', tr @ tr')))"

subsection \<open>run_server and the thread functions\<close>

text \<open>
  The environment of one cycle of the wait for a peer (lines 142-153): what the
  application did to the control block before the lock of line 147, and the answer of
  \<open>poll\<close>.
\<close>

record wait_env =
  wait_app :: "libvchan_t \<Rightarrow> libvchan_t"
  wait_poll_ret :: int
  wait_poll_errno :: errno
  wait_revents :: pollev

datatype wait_result = Wait_return libvchan_t | Wait_connected libvchan_t

fun wait_peer :: "libvchan_t \<Rightarrow> int \<Rightarrow> wait_env list \<Rightarrow> (wait_result \<times> action list) option" where
  "wait_peer ctrl fd [] = None"
| "wait_peer ctrl fd (e # es) =
     (let tr = [Poll [(fd, POLLIN)] (sint CONNECT_DELAY_MS)] in
      if wait_poll_ret e < 0 \<and> wait_poll_errno e \<noteq> EINTR then
        Some (Wait_return ctrl, tr @ [Perror ''poll server_fd''])
      else
        (let c = wait_app e ctrl;
             done = shutdown c;
             tr = tr @ [Lock, Unlock]
         in
         if done \<noteq> 0 then Some (Wait_return c, tr)
         else
           (let connected = wait_revents e AND POLLIN in
            if connected \<noteq> 0 then Some (Wait_connected c, tr)
            else
              (case wait_peer c fd es of
                 None \<Rightarrow> None
               | Some (r, tr') \<Rightarrow> Some (r, tr @ tr')))))"

text \<open>
  Lines 155-162: accept, again after an interrupted call. \<open>Some (Some fd, _)\<close>: the
  accepted descriptor; \<open>Some (None, _)\<close>: accept failed and \<open>run_server\<close> returns.
\<close>

fun accept_loop :: "int \<Rightarrow> (int \<times> errno) list \<Rightarrow> (int option \<times> action list) option" where
  "accept_loop sfd [] = None"
| "accept_loop sfd ((r, er) # rs) =
     (if r < 0 \<and> er \<noteq> EINTR then Some (None, [Accept sfd r er, Perror ''accept''])
      else if r < 0 then
        (case accept_loop sfd rs of
           None \<Rightarrow> None
         | Some (x, tr) \<Rightarrow> Some (x, Accept sfd r er # tr))
      else Some (Some r, [Accept sfd r er]))"

record server_env =
  waits :: "wait_env list"
  accepts :: "(int \<times> errno) list"
  server_fcntl_ret :: int
  app_accepted :: "libvchan_t \<Rightarrow> libvchan_t"
  connected_pipe_ret :: int
  comms :: "comm_env list"
  app_closing :: "libvchan_t \<Rightarrow> libvchan_t"
  disconnected_pipe_ret :: int
  close_ret :: int

definition run_server :: "libvchan_t \<Rightarrow> int \<Rightarrow> server_env \<Rightarrow> (libvchan_t \<times> action list) option" where
  "run_server ctrl server_fd e =
     (case wait_peer ctrl server_fd (waits e) of
        None \<Rightarrow> None
      | Some (Wait_return c, tr1) \<Rightarrow> Some (c, tr1)
      | Some (Wait_connected c, tr1) \<Rightarrow>
          (case accept_loop server_fd (accepts e) of
             None \<Rightarrow> None
           | Some (None, tr2) \<Rightarrow> Some (c, tr1 @ tr2)
           | Some (Some fd, tr2) \<Rightarrow>
               if server_fcntl_ret e \<noteq> 0 then
                 Some (c, tr1 @ tr2 @ [Fcntl fd O_NONBLOCK, Perror ''fcntl socket''])
               else
                 (let (c1, tr3) = change_state (app_accepted e c) VCHAN_CONNECTED
                                    (connected_pipe_ret e)
                  in
                  case comm_loop c1 fd (comms e) of
                    None \<Rightarrow> None
                  | Some (x, c2, tr4) \<Rightarrow>
                      (let (c3, tr5) = change_state (app_closing e c2) VCHAN_DISCONNECTED
                                         (disconnected_pipe_ret e)
                       in
                       Some (c3, tr1 @ tr2 @ [Fcntl fd O_NONBLOCK] @ tr3 @ tr4 @ tr5
                                 @ [Close fd]
                                 @ (if close_ret e \<noteq> 0 then [Perror ''close socket''] else []))))))"

text \<open>Lines 73-84. \<open>r\<close> is what \<open>pthread_sigmask\<close> returns.\<close>

definition libvchan__server :: "libvchan_t \<Rightarrow> int \<Rightarrow> server_env \<Rightarrow> (libvchan_t \<times> action list) option" where
  "libvchan__server ctrl r e =
     (if r \<noteq> 0 then Some (ctrl, [Sigmask r, Perror ''pthread_sigmask''])
      else
        (case run_server ctrl (socket_fd ctrl) e of
           None \<Rightarrow> None
         | Some (c, tr) \<Rightarrow> Some (c, Sigmask r # tr)))"

text \<open>
  Lines 86-98. \<open>r\<close> is what \<open>pthread_sigmask\<close> returns, \<open>w\<close> what the write of the wake
  byte in \<open>change_state\<close> returns, \<open>app\<close> what the application did between the end of
  the loop and the lock of \<open>change_state\<close>.
\<close>

definition libvchan__client :: "libvchan_t \<Rightarrow> int \<Rightarrow> comm_env list \<Rightarrow> (libvchan_t \<Rightarrow> libvchan_t) \<Rightarrow> int
    \<Rightarrow> (libvchan_t \<times> action list) option" where
  "libvchan__client ctrl r es app w =
     (if r \<noteq> 0 then Some (ctrl, [Sigmask r, Perror ''pthread_sigmask''])
      else
        (case comm_loop ctrl (socket_fd ctrl) es of
           None \<Rightarrow> None
         | Some (x, c, tr) \<Rightarrow>
             (let (c', tr') = change_state (app c) VCHAN_DISCONNECTED w in
              Some (c', Sigmask r # tr @ tr'))))"

subsection \<open>Reading a list of actions\<close>

text \<open>
  The mutex along a list of actions, from \<open>held\<close>: \<open>None\<close> if the thread locks a
  mutex it holds or unlocks one it does not hold, else whether it holds the mutex at
  the end.
\<close>

fun lock_run :: "bool \<Rightarrow> action list \<Rightarrow> bool option" where
  "lock_run held [] = Some held"
| "lock_run held (Lock # as) = (if held then None else lock_run True as)"
| "lock_run held (Unlock # as) = (if held then lock_run False as else None)"
| "lock_run held (a # as) = lock_run held as"

text \<open>The writes to a pipe, the socket reads and writes that moved bytes.\<close>

fun is_pipe_write :: "action \<Rightarrow> bool" where
  "is_pipe_write (PipeWrite fd r) = True"
| "is_pipe_write a = False"

definition wake_writes :: "action list \<Rightarrow> nat" where
  "wake_writes tr = length (filter is_pipe_write tr)"

fun moved_bytes :: "action \<Rightarrow> bool" where
  "moved_bytes (SockRead fd n r er) = (r > 0)"
| "moved_bytes (SockWrite fd n r er) = (r > 0)"
| "moved_bytes a = False"

definition transferred :: "action list \<Rightarrow> bool" where
  "transferred tr = list_ex moved_bytes tr"

text \<open>
  The outcomes of a socket call after which the body sets \<open>done\<close>: a read of 0 bytes,
  a read that fails with ECONNRESET, a write that fails with EPIPE.
\<close>

fun closes_peer :: "action \<Rightarrow> bool" where
  "closes_peer (SockRead fd n r er) = (r = 0 \<or> (r < 0 \<and> er = ECONNRESET))"
| "closes_peer (SockWrite fd n r er) = (r < 0 \<and> er = EPIPE)"
| "closes_peer a = False"

definition peer_closed :: "action list \<Rightarrow> bool" where
  "peer_closed tr = list_ex closes_peer tr"

subsection \<open>The outcomes of the socket calls, as the specification names them\<close>

text \<open>
  Whether an iteration that sees the control block \<open>ctrl\<close> under the lock calls
  \<open>read\<close> (resp. \<open>write\<close>), and the classes of results of section 4.2 of the
  specification: peer closed (0 bytes read, connection reset, broken pipe) and fatal (a
  negative result with any errno that is named in neither list).
\<close>

definition poll_failed :: "comm_env \<Rightarrow> bool" where
  "poll_failed e = (poll_ret e < 0 \<and> poll_errno e \<noteq> EINTR)"

definition read_issued :: "libvchan_t \<Rightarrow> comm_env \<Rightarrow> bool" where
  "read_issued ctrl e = (revents0 e AND POLLIN \<noteq> 0 \<and> 0 < ring_available (read_ring ctrl))"

definition write_issued :: "libvchan_t \<Rightarrow> comm_env \<Rightarrow> bool" where
  "write_issued ctrl e = (revents0 e AND POLLOUT \<noteq> 0 \<and> 0 < ring_filled (write_ring ctrl))"

definition read_closes :: "comm_env \<Rightarrow> bool" where
  "read_closes e = (read_ret e = 0 \<or> (read_ret e < 0 \<and> read_errno e = ECONNRESET))"

definition write_closes :: "comm_env \<Rightarrow> bool" where
  "write_closes e = (write_ret e < 0 \<and> write_errno e = EPIPE)"

definition read_fatal :: "comm_env \<Rightarrow> bool" where
  "read_fatal e =
     (read_ret e < 0 \<and> read_errno e \<noteq> EAGAIN \<and> read_errno e \<noteq> EWOULDBLOCK
      \<and> read_errno e \<noteq> ECONNRESET)"

definition write_fatal :: "comm_env \<Rightarrow> bool" where
  "write_fatal e =
     (write_ret e < 0 \<and> write_errno e \<noteq> EAGAIN \<and> write_errno e \<noteq> EWOULDBLOCK
      \<and> write_errno e \<noteq> EPIPE)"

text \<open>
  The effect of a call that is not fatal, in the words of the specification: the bytes
  moved (none when the result is not positive) are committed to the ring, and the peer
  is to be woken if a call moved bytes.
\<close>

definition after_read :: "libvchan_t \<Rightarrow> comm_env \<Rightarrow> libvchan_t" where
  "after_read ctrl e =
     (if read_issued ctrl e
      then ctrl\<lparr>read_ring := ring_advance_tail (read_ring ctrl) (max 0 (read_ret e))\<rparr>
      else ctrl)"

definition after_write :: "libvchan_t \<Rightarrow> comm_env \<Rightarrow> libvchan_t" where
  "after_write ctrl e =
     (if write_issued ctrl e
      then ctrl\<lparr>write_ring := ring_advance_head (write_ring ctrl) (max 0 (write_ret e))\<rparr>
      else ctrl)"

definition read_call :: "libvchan_t \<Rightarrow> int \<Rightarrow> comm_env \<Rightarrow> action" where
  "read_call ctrl fd e = SockRead fd (ring_available (read_ring ctrl)) (read_ret e) (read_errno e)"

definition write_call :: "libvchan_t \<Rightarrow> int \<Rightarrow> comm_env \<Rightarrow> action" where
  "write_call ctrl fd e = SockWrite fd (ring_filled (write_ring ctrl)) (write_ret e) (write_errno e)"

definition read_actions :: "libvchan_t \<Rightarrow> int \<Rightarrow> comm_env \<Rightarrow> action list" where
  "read_actions ctrl fd e =
     (if read_issued ctrl e then [read_call ctrl fd e, AdvanceTail (max 0 (read_ret e))] else [])"

definition write_actions :: "libvchan_t \<Rightarrow> int \<Rightarrow> comm_env \<Rightarrow> action list" where
  "write_actions ctrl fd e =
     (if write_issued ctrl e then [write_call ctrl fd e, AdvanceHead (max 0 (write_ret e))] else [])"

definition notify_due :: "libvchan_t \<Rightarrow> comm_env \<Rightarrow> bool" where
  "notify_due ctrl e =
     (read_issued ctrl e \<and> 0 < read_ret e \<or> write_issued ctrl e \<and> 0 < write_ret e)"

definition wake_call :: "libvchan_t \<Rightarrow> comm_env \<Rightarrow> action" where
  "wake_call ctrl e = PipeWrite (snd (socket_event_pipe ctrl)) (pipe_ret e)"

subsection \<open>A channel and some answers of the operating system, for the examples\<close>

text \<open>
  A connected channel on socket 3 whose outbound ring holds 5 bytes that straddle the end
  of its 8-byte buffer (2 bytes up to the end, 3 after it), and an iteration in which
  nothing happens: the application leaves the control block alone and \<open>poll\<close> reports
  no event.
\<close>

definition ctrl_example :: libvchan_t where
  "ctrl_example =
     \<lparr>state = VCHAN_CONNECTED, shutdown = 0,
      read_ring = \<lparr>ring_size = 8, ring_start = 0, ring_count = 0\<rparr>,
      write_ring = \<lparr>ring_size = 8, ring_start = 6, ring_count = 5\<rparr>,
      socket_fd = 3, user_event_pipe = (4, 5), socket_event_pipe = (6, 7)\<rparr>"

definition env_idle :: comm_env where
  "env_idle =
     \<lparr>app_pre = (\<lambda>c. c), app_wait = (\<lambda>c. c), poll_ret = 0, poll_errno = EINTR,
      revents0 = 0, revents1 = 0, read_ret = 0, read_errno = EAGAIN,
      write_ret = 0, write_errno = EAGAIN, pipe_ret = 1\<rparr>"

text \<open>
  Iterations on \<open>ctrl_example\<close>: one in which \<open>read\<close> delivers 5 bytes and \<open>write\<close>
  then fails with ECONNRESET, which the write path does not handle; one in which
  \<open>read\<close> delivers 5 bytes and the write of the wake byte fails; one in which
  \<open>read\<close> delivers 5 bytes and \<open>write\<close> takes the 2 bytes up to the end of the
  buffer; one in which \<open>write\<close> takes these 2 bytes while the application requests
  the shutdown; one in which it takes the remaining 3 bytes.
\<close>

definition env_write_fault :: comm_env where
  "env_write_fault =
     env_idle\<lparr>poll_ret := 1, revents0 := 5, read_ret := 5, write_ret := - 1,
              write_errno := ECONNRESET\<rparr>"

definition env_wake_fault :: comm_env where
  "env_wake_fault = env_idle\<lparr>poll_ret := 1, revents0 := 1, read_ret := 5, pipe_ret := - 1\<rparr>"

definition env_read_write :: comm_env where
  "env_read_write = env_idle\<lparr>poll_ret := 1, revents0 := 5, read_ret := 5, write_ret := 2\<rparr>"

definition env_write2 :: comm_env where
  "env_write2 =
     env_idle\<lparr>app_wait := (\<lambda>c. c\<lparr>shutdown := 1\<rparr>), poll_ret := 1, revents0 := 4,
              write_ret := 2\<rparr>"

definition env_write3 :: comm_env where
  "env_write3 = env_idle\<lparr>poll_ret := 1, revents0 := 4, write_ret := 3\<rparr>"

subsection \<open>Runs of the two waiting loops\<close>

text \<open>
  An answer of \<open>connect\<close> after which the loop of \<open>libvchan__connect\<close> tries again,
  and the actions of a run of such answers.
\<close>

fun transient :: "int \<times> errno \<Rightarrow> bool" where
  "transient (r, er) = (r \<noteq> 0 \<and> (er = ECONNREFUSED \<or> er = ENOENT))"

fun retry_actions :: "int \<Rightarrow> (int \<times> errno) list \<Rightarrow> action list" where
  "retry_actions fd [] = []"
| "retry_actions fd ((r, er) # rs) = [Connect fd r er, Nanosleep connect_delay] @ retry_actions fd rs"

text \<open>
  Cycles of the wait of \<open>run_server\<close> in which nothing happens: \<open>poll\<close> does not fail,
  no shutdown is requested when the flag is read, and no connection is pending. The
  control block after such cycles, and their actions.
\<close>

fun quiet :: "libvchan_t \<Rightarrow> wait_env list \<Rightarrow> bool" where
  "quiet ctrl [] = True"
| "quiet ctrl (w # ws) =
     (\<not> (wait_poll_ret w < 0 \<and> wait_poll_errno w \<noteq> EINTR)
      \<and> shutdown (wait_app w ctrl) = 0
      \<and> wait_revents w AND POLLIN = 0
      \<and> quiet (wait_app w ctrl) ws)"

fun after_waits :: "libvchan_t \<Rightarrow> wait_env list \<Rightarrow> libvchan_t" where
  "after_waits ctrl [] = ctrl"
| "after_waits ctrl (w # ws) = after_waits (wait_app w ctrl) ws"

fun wait_actions :: "int \<Rightarrow> nat \<Rightarrow> action list" where
  "wait_actions fd 0 = []"
| "wait_actions fd (Suc n) =
     [Poll [(fd, POLLIN)] (sint CONNECT_DELAY_MS), Lock, Unlock] @ wait_actions fd n"

text \<open>
  A listening channel in state WAITING, a cycle in which nothing happens, and a cycle
  during which the application requests the shutdown; no client connects.
\<close>

definition ctrl_waiting :: libvchan_t where
  "ctrl_waiting = ctrl_example\<lparr>state := VCHAN_WAITING\<rparr>"

definition wait_idle :: wait_env where
  "wait_idle =
     \<lparr>wait_app = (\<lambda>c. c), wait_poll_ret = 0, wait_poll_errno = EINTR, wait_revents = 0\<rparr>"

definition wait_shutdown :: wait_env where
  "wait_shutdown = wait_idle\<lparr>wait_app := (\<lambda>c. c\<lparr>shutdown := 1\<rparr>)\<rparr>"

definition server_env_no_client :: server_env where
  "server_env_no_client =
     \<lparr>waits = [wait_idle, wait_shutdown], accepts = [], server_fcntl_ret = 0,
      app_accepted = (\<lambda>c. c), connected_pipe_ret = 1, comms = [],
      app_closing = (\<lambda>c. c), disconnected_pipe_ret = 1, close_ret = 0\<rparr>"

text \<open>
  A call of \<open>libvchan__connect\<close> that gets descriptor 3; the endpoint does not exist at
  the first attempt, refuses the second and accepts the third.
\<close>

definition connect_env_late_listener :: connect_env where
  "connect_env_late_listener =
     \<lparr>socket_ret = 3, connect_rets = [(- 1, ENOENT), (- 1, ECONNREFUSED), (0, EINTR)],
      connect_fcntl_ret = 0\<rparr>"

section \<open>Theorems\<close>

subsection \<open>The body of the loop, case by case\<close>

lemma comm_iter_cases [case_names poll_fail read_return write_return notify_return completes]:
  fixes c :: libvchan_t and fd :: int and e :: comm_env
  defines "c1 \<equiv> app_pre e c"
  defines "cl \<equiv> app_wait e (app_pre e c)"
  obtains
    (poll_fail) "poll_failed e"
      "comm_iter c fd e = (Iter_return cl, poll_actions c1 fd @ [Perror ''poll comm_loop''])"
  | (read_return) c' t3 where
      "\<not> poll_failed e"
      "sock_read cl fd e 0 0 = (Return c', t3)"
      "comm_iter c fd e = (Iter_return c', poll_actions c1 fd @ relock_actions cl e @ t3)"
  | (write_return) d3 n3 c3 t3 c' t4 where
      "\<not> poll_failed e"
      "sock_read cl fd e 0 0 = (Go d3 n3 c3, t3)"
      "sock_write c3 fd e d3 n3 = (Return c', t4)"
      "comm_iter c fd e = (Iter_return c', poll_actions c1 fd @ relock_actions cl e @ t3 @ t4)"
  | (notify_return) d3 n3 c3 t3 d4 n4 c4 t4 c' t5 where
      "\<not> poll_failed e"
      "sock_read cl fd e 0 0 = (Go d3 n3 c3, t3)"
      "sock_write c3 fd e d3 n3 = (Go d4 n4 c4, t4)"
      "notify_peer c4 e d4 n4 = (Return c', t5)"
      "comm_iter c fd e = (Iter_return c', poll_actions c1 fd @ relock_actions cl e @ t3 @ t4 @ t5)"
  | (completes) d3 n3 c3 t3 d4 n4 c4 t4 d5 n5 c5 t5 where
      "\<not> poll_failed e"
      "sock_read cl fd e 0 0 = (Go d3 n3 c3, t3)"
      "sock_write c3 fd e d3 n3 = (Go d4 n4 c4, t4)"
      "notify_peer c4 e d4 n4 = (Go d5 n5 c5, t5)"
      "comm_iter c fd e =
         (Iter_next (if shutdown cl \<noteq> 0 \<and> ring_filled (write_ring c5) = 0 then 1 else d5) c5,
          poll_actions c1 fd @ relock_actions cl e @ t3 @ t4 @ t5 @ [Unlock])"
proof (cases "poll_failed e")
  case True
  then have "comm_iter c fd e = (Iter_return cl, poll_actions c1 fd @ [Perror ''poll comm_loop''])"
    by (simp add: comm_iter_def c1_def cl_def Let_def poll_failed_def)
  with True show ?thesis using poll_fail by blast
next
  case nf: False
  obtain p3 t3 where r3: "sock_read cl fd e 0 0 = (p3, t3)" by (cases "sock_read cl fd e 0 0")
  show ?thesis
  proof (cases p3)
    case (Return c')
    have "comm_iter c fd e = (Iter_return c', poll_actions c1 fd @ relock_actions cl e @ t3)"
      using r3 Return by (simp add: comm_iter_def c1_def cl_def Let_def nf[unfolded poll_failed_def])
    then show ?thesis using read_return nf r3 Return by blast
  next
    case g3: (Go d3 n3 c3)
    obtain p4 t4 where r4: "sock_write c3 fd e d3 n3 = (p4, t4)" by (cases "sock_write c3 fd e d3 n3")
    show ?thesis
    proof (cases p4)
      case (Return c')
      have "comm_iter c fd e =
              (Iter_return c', poll_actions c1 fd @ relock_actions cl e @ t3 @ t4)"
        using r3 g3 r4 Return by (simp add: comm_iter_def c1_def cl_def Let_def nf[unfolded poll_failed_def])
      then show ?thesis using write_return nf r3 g3 r4 Return by blast
    next
      case g4: (Go d4 n4 c4)
      obtain p5 t5 where r5: "notify_peer c4 e d4 n4 = (p5, t5)" by (cases "notify_peer c4 e d4 n4")
      show ?thesis
      proof (cases p5)
        case (Return c')
        have "comm_iter c fd e =
                (Iter_return c', poll_actions c1 fd @ relock_actions cl e @ t3 @ t4 @ t5)"
          using r3 g3 r4 g4 r5 Return by (simp add: comm_iter_def c1_def cl_def Let_def nf[unfolded poll_failed_def])
        then show ?thesis using notify_return nf r3 g3 r4 g4 r5 Return by blast
      next
        case (Go d5 n5 c5)
        have "comm_iter c fd e =
                (Iter_next (if shutdown cl \<noteq> 0 \<and> ring_filled (write_ring c5) = 0 then 1 else d5) c5,
                 poll_actions c1 fd @ relock_actions cl e @ t3 @ t4 @ t5 @ [Unlock])"
          using r3 g3 r4 g4 r5 Go by (simp add: comm_iter_def c1_def cl_def Let_def nf[unfolded poll_failed_def])
        then show ?thesis using completes nf r3 g3 r4 g4 r5 Go by blast
      qed
    qed
  qed
qed


lemma sock_read_eq:
  "sock_read c fd e d n =
     (if revents0 e AND POLLIN \<noteq> 0 \<and> 0 < ring_available (read_ring c) then
        (if read_ret e < 0 \<and> read_errno e \<noteq> EAGAIN \<and> read_errno e \<noteq> EWOULDBLOCK
            \<and> read_errno e \<noteq> ECONNRESET
         then (Return c, [SockRead fd (ring_available (read_ring c)) (read_ret e) (read_errno e),
                          Perror ''read from socket'', Unlock])
         else (Go (if read_ret e = 0 \<or> (read_ret e < 0 \<and> read_errno e = ECONNRESET) then 1 else d)
                  (if 0 < read_ret e then 1 else n)
                  (c\<lparr>read_ring := ring_advance_tail (read_ring c) (max 0 (read_ret e))\<rparr>),
               [SockRead fd (ring_available (read_ring c)) (read_ret e) (read_errno e),
                AdvanceTail (max 0 (read_ret e))]))
      else (Go d n c, []))"
  by (auto simp add: sock_read_def Let_def max_def)

lemma sock_write_eq:
  "sock_write c fd e d n =
     (if revents0 e AND POLLOUT \<noteq> 0 \<and> 0 < ring_filled (write_ring c) then
        (if write_ret e < 0 \<and> write_errno e \<noteq> EAGAIN \<and> write_errno e \<noteq> EWOULDBLOCK
            \<and> write_errno e \<noteq> EPIPE
         then (Return c, [SockWrite fd (ring_filled (write_ring c)) (write_ret e) (write_errno e),
                          Perror ''write to socket'', Unlock])
         else (Go (if write_ret e < 0 \<and> write_errno e = EPIPE then 1 else d)
                  (if 0 < write_ret e then 1 else n)
                  (c\<lparr>write_ring := ring_advance_head (write_ring c) (max 0 (write_ret e))\<rparr>),
               [SockWrite fd (ring_filled (write_ring c)) (write_ret e) (write_errno e),
                AdvanceHead (max 0 (write_ret e))]))
      else (Go d n c, []))"
  by (auto simp add: sock_write_def Let_def max_def)



lemma ring_advance_tail_0: "ring_advance_tail r 0 = r"
  by (simp add: ring_advance_tail_def)

lemma ring_advance_head_0: "0 < ring_filled r \<Longrightarrow> ring_advance_head r 0 = r"
  by (simp add: ring_advance_head_def ring_filled_def)

lemma sock_read_GoD:
  assumes "sock_read c fd e d n = (Go d' n' c', t)"
  shows "d' = (if read_issued c e \<and> read_closes e then 1 else d)"
    and "n' = (if read_issued c e \<and> 0 < read_ret e then 1 else n)"
    and "c' = (if read_issued c e
               then c\<lparr>read_ring := ring_advance_tail (read_ring c) (max 0 (read_ret e))\<rparr> else c)"
    and "t = (if read_issued c e
              then [SockRead fd (ring_available (read_ring c)) (read_ret e) (read_errno e),
                    AdvanceTail (max 0 (read_ret e))] else [])"
    and "\<not> (read_issued c e \<and> read_fatal e)"
  using assms unfolding sock_read_eq read_issued_def read_closes_def read_fatal_def
  by (auto split: if_splits)

lemma sock_read_ReturnD:
  assumes "sock_read c fd e d n = (Return c', t)"
  shows "read_issued c e" and "read_fatal e" and "c' = c"
    and "t = [SockRead fd (ring_available (read_ring c)) (read_ret e) (read_errno e),
              Perror ''read from socket'', Unlock]"
  using assms unfolding sock_read_eq read_issued_def read_closes_def read_fatal_def
  by (auto split: if_splits)

lemma sock_write_GoD:
  assumes "sock_write c fd e d n = (Go d' n' c', t)"
  shows "d' = (if write_issued c e \<and> write_closes e then 1 else d)"
    and "n' = (if write_issued c e \<and> 0 < write_ret e then 1 else n)"
    and "c' = (if write_issued c e
               then c\<lparr>write_ring := ring_advance_head (write_ring c) (max 0 (write_ret e))\<rparr> else c)"
    and "t = (if write_issued c e
              then [SockWrite fd (ring_filled (write_ring c)) (write_ret e) (write_errno e),
                    AdvanceHead (max 0 (write_ret e))] else [])"
    and "\<not> (write_issued c e \<and> write_fatal e)"
  using assms unfolding sock_write_eq write_issued_def write_closes_def write_fatal_def
  by (auto split: if_splits)

lemma sock_write_ReturnD:
  assumes "sock_write c fd e d n = (Return c', t)"
  shows "write_issued c e" and "write_fatal e" and "c' = c"
    and "t = [SockWrite fd (ring_filled (write_ring c)) (write_ret e) (write_errno e),
              Perror ''write to socket'', Unlock]"
  using assms unfolding sock_write_eq write_issued_def write_closes_def write_fatal_def
  by (auto split: if_splits)

lemma notify_peer_GoD:
  assumes "notify_peer c e d n = (Go d' n' c', t)"
  shows "d' = d" and "n' = n" and "c' = c"
    and "t = (if n \<noteq> 0 then [PipeWrite (snd (socket_event_pipe c)) (pipe_ret e)] else [])"
    and "n = 0 \<or> pipe_ret e = 1"
  using assms unfolding notify_peer_def by (auto simp add: Let_def split: if_splits)

lemma notify_peer_ReturnD:
  assumes "notify_peer c e d n = (Return c', t)"
  shows "n \<noteq> 0" and "pipe_ret e \<noteq> 1" and "c' = c"
    and "t = [PipeWrite (snd (socket_event_pipe c)) (pipe_ret e), Perror ''write'', Unlock]"
  using assms unfolding notify_peer_def by (auto simp add: Let_def split: if_splits)

subsection \<open>The mutex along the actions of the loop\<close>

lemma lock_run_append:
  "lock_run h (xs @ ys) = (case lock_run h xs of None \<Rightarrow> None | Some h' \<Rightarrow> lock_run h' ys)"
  by (induction h xs rule: lock_run.induct) simp_all

lemma poll_actions_lock: "lock_run False (poll_actions c fd) = Some False"
  by (simp add: poll_actions_def)

lemma relock_actions_lock: "lock_run False (relock_actions c e) = Some True"
  by (simp add: relock_actions_def)

lemma comm_iter_lock: "lock_run False (snd (comm_iter c fd e)) = Some False"
proof (cases rule: comm_iter_cases [of e c fd])
  case poll_fail
  then show ?thesis
    by (simp add: lock_run_append poll_actions_lock)
next
  case (read_return c' t3)
  then show ?thesis
    by (simp add: lock_run_append poll_actions_lock relock_actions_lock
        sock_read_ReturnD(4) [OF read_return(2)])
next
  case (write_return d3 n3 c3 t3 c' t4)
  then show ?thesis
    by (simp add: lock_run_append poll_actions_lock relock_actions_lock
        sock_read_GoD(4) [OF write_return(2)] sock_write_ReturnD(4) [OF write_return(3)])
next
  case (notify_return d3 n3 c3 t3 d4 n4 c4 t4 c' t5)
  then show ?thesis
    by (simp add: lock_run_append poll_actions_lock relock_actions_lock
        sock_read_GoD(4) [OF notify_return(2)] sock_write_GoD(4) [OF notify_return(3)]
        notify_peer_ReturnD(4) [OF notify_return(4)])
next
  case (completes d3 n3 c3 t3 d4 n4 c4 t4 d5 n5 c5 t5)
  then show ?thesis
    by (simp add: lock_run_append poll_actions_lock relock_actions_lock
        sock_read_GoD(4) [OF completes(2)] sock_write_GoD(4) [OF completes(3)]
        notify_peer_GoD(4) [OF completes(4)])
qed

subsection \<open>The body of the loop in one equation\<close>

lemma comm_iter_eq:
  fixes c :: libvchan_t and fd :: int and e :: comm_env
  defines "c1 \<equiv> app_pre e c"
  defines "cl \<equiv> app_wait e (app_pre e c)"
  defines "c4 \<equiv> after_write (after_read cl e) e"
  shows "comm_iter c fd e =
     (if poll_failed e then
        (Iter_return cl, poll_actions c1 fd @ [Perror ''poll comm_loop''])
      else if read_issued cl e \<and> read_fatal e then
        (Iter_return cl,
         poll_actions c1 fd @ relock_actions cl e
         @ [read_call cl fd e, Perror ''read from socket'', Unlock])
      else if write_issued cl e \<and> write_fatal e then
        (Iter_return (after_read cl e),
         poll_actions c1 fd @ relock_actions cl e @ read_actions cl fd e
         @ [write_call cl fd e, Perror ''write to socket'', Unlock])
      else if notify_due cl e \<and> pipe_ret e \<noteq> 1 then
        (Iter_return c4,
         poll_actions c1 fd @ relock_actions cl e @ read_actions cl fd e @ write_actions cl fd e
         @ [wake_call cl e, Perror ''write'', Unlock])
      else
        (Iter_next
           (if shutdown cl \<noteq> 0 \<and> ring_filled (write_ring c4) = 0
               \<or> read_issued cl e \<and> read_closes e \<or> write_issued cl e \<and> write_closes e
            then 1 else 0)
           c4,
         poll_actions c1 fd @ relock_actions cl e @ read_actions cl fd e @ write_actions cl fd e
         @ (if notify_due cl e then [wake_call cl e] else [])
         @ [Unlock]))"
proof -
  define rd where "rd = read_issued cl e"
  define wr where "wr = write_issued cl e"
  define c3 where "c3 = after_read cl e"
  define rcall where "rcall = read_call cl fd e"
  define wcall where "wcall = write_call cl fd e"
  define t3 where "t3 = read_actions cl fd e"
  define t4 where "t4 = write_actions cl fd e"
  define noti where "noti = notify_due cl e"
  define wake where "wake = wake_call cl e"
  note c3_def' = c3_def [unfolded after_read_def, folded rd_def]
  note c4_def' = c4_def [folded c3_def, unfolded after_write_def]
  note rcall_def' = rcall_def [unfolded read_call_def]
  note wcall_def' = wcall_def [unfolded write_call_def]
  note t3_def' = t3_def [unfolded read_actions_def, folded rd_def rcall_def]
  note wake_def' = wake_def [unfolded wake_call_def]
  have wr3: "write_issued c3 e = wr" "write_ring c3 = write_ring cl"
    by (simp_all add: c3_def' wr_def write_issued_def)
  note c4_def'' = c4_def' [unfolded wr3]
  have t4_def': "t4 = (if wr then [wcall, AdvanceHead (max 0 (write_ret e))] else [])"
    by (simp add: t4_def write_actions_def wr_def wcall_def)
  have noti_def': "noti = (rd \<and> 0 < read_ret e \<or> wr \<and> 0 < write_ret e)"
    by (simp add: noti_def notify_due_def rd_def wr_def)
  have pipe4: "socket_event_pipe c4 = socket_event_pipe cl"
    by (simp add: c4_def'' c3_def')
  have "comm_iter c fd e =
     (if poll_failed e then
        (Iter_return cl, poll_actions c1 fd @ [Perror ''poll comm_loop''])
      else if rd \<and> read_fatal e then
        (Iter_return cl,
         poll_actions c1 fd @ relock_actions cl e @ [rcall, Perror ''read from socket'', Unlock])
      else if wr \<and> write_fatal e then
        (Iter_return c3,
         poll_actions c1 fd @ relock_actions cl e @ t3
         @ [wcall, Perror ''write to socket'', Unlock])
      else if noti \<and> pipe_ret e \<noteq> 1 then
        (Iter_return c4,
         poll_actions c1 fd @ relock_actions cl e @ t3 @ t4 @ [wake, Perror ''write'', Unlock])
      else
        (Iter_next
           (if shutdown cl \<noteq> 0 \<and> ring_filled (write_ring c4) = 0
               \<or> rd \<and> read_closes e \<or> wr \<and> write_closes e then 1 else 0)
           c4,
         poll_actions c1 fd @ relock_actions cl e @ t3 @ t4 @ (if noti then [wake] else [])
         @ [Unlock]))"
  proof (cases rule: comm_iter_cases [of e c fd])
    case poll_fail
    then show ?thesis by (simp add: c1_def cl_def)
  next
    case (read_return c' t)
    note R = sock_read_ReturnD [OF read_return(2), folded cl_def, folded rd_def rcall_def']
    from read_return(1) R show ?thesis
      unfolding read_return(3) [folded cl_def, folded c1_def] by simp
  next
    case (write_return d3 n3 c3' t3' c' t)
    note R = sock_read_GoD [OF write_return(2), folded cl_def, folded rd_def rcall_def']
    have c3': "c3' = c3" using R(3) by (simp add: c3_def')
    have t3': "t3' = t3" using R(4) by (simp add: t3_def')
    note W = sock_write_ReturnD [OF write_return(3) [unfolded c3'], unfolded wr3, folded wcall_def']
    from write_return(1) R(5) W c3' t3' show ?thesis
      unfolding write_return(4) [folded cl_def, folded c1_def] by simp
  next
    case (notify_return d3 n3 c3' t3' d4 n4 c4' t4' c' t)
    note R = sock_read_GoD [OF notify_return(2), folded cl_def, folded rd_def rcall_def']
    have c3': "c3' = c3" using R(3) by (simp add: c3_def')
    have t3': "t3' = t3" using R(4) by (simp add: t3_def')
    note W = sock_write_GoD [OF notify_return(3) [unfolded c3'], unfolded wr3, folded wcall_def']
    have c4': "c4' = c4" using W(3) by (simp add: c4_def'')
    have t4': "t4' = t4" using W(4) by (simp add: t4_def')
    note N = notify_peer_ReturnD [OF notify_return(4) [unfolded c4'], unfolded pipe4, folded wake_def']
    have n4: "noti" using N(1) R(2) W(2) by (auto simp add: noti_def' split: if_splits)
    from notify_return(1) R(5) W(5) N n4 c3' t3' c4' t4' show ?thesis
      unfolding notify_return(5) [folded cl_def, folded c1_def] by simp
  next
    case (completes d3 n3 c3' t3' d4 n4 c4' t4' d5 n5 c5 t5)
    note R = sock_read_GoD [OF completes(2), folded cl_def, folded rd_def rcall_def']
    have c3': "c3' = c3" using R(3) by (simp add: c3_def')
    have t3': "t3' = t3" using R(4) by (simp add: t3_def')
    note W = sock_write_GoD [OF completes(3) [unfolded c3'], unfolded wr3, folded wcall_def']
    have c4': "c4' = c4" using W(3) by (simp add: c4_def'')
    have t4': "t4' = t4" using W(4) by (simp add: t4_def')
    note N = notify_peer_GoD [OF completes(4) [unfolded c4'], unfolded pipe4, folded wake_def']
    have n4: "(n4 \<noteq> 0) = noti" using R(2) W(2) by (simp add: noti_def')
    have t5: "t5 = (if noti then [wake] else [])" using N(4) n4 by simp
    have np: "\<not> (noti \<and> pipe_ret e \<noteq> 1)" using N(5) n4 by auto
    have d5: "d5 = (if rd \<and> read_closes e \<or> wr \<and> write_closes e then 1 else 0)"
      using N(1) R(1) W(1) by simp
    from completes(1) R(5) W(5) np show ?thesis
      unfolding completes(5) [folded cl_def, folded c1_def] N(3) t3' t4' t5 d5 by auto
  qed
then show ?thesis
    by (simp only: rd_def wr_def c3_def rcall_def wcall_def t3_def t4_def noti_def wake_def)
qed

subsection \<open>What the parts of an iteration contribute to its actions\<close>

lemma wake_writes_append: "wake_writes (xs @ ys) = wake_writes xs + wake_writes ys"
  by (simp add: wake_writes_def)

lemma transferred_append: "transferred (xs @ ys) = (transferred xs \<or> transferred ys)"
  by (simp add: transferred_def)

lemma peer_closed_append: "peer_closed (xs @ ys) = (peer_closed xs \<or> peer_closed ys)"
  by (simp add: peer_closed_def)

lemma poll_actions_quiet:
  "wake_writes (poll_actions c fd) = 0" "\<not> transferred (poll_actions c fd)"
  "\<not> peer_closed (poll_actions c fd)" "Perror s \<notin> set (poll_actions c fd)"
  by (simp_all add: poll_actions_def wake_writes_def transferred_def peer_closed_def)

lemma relock_actions_quiet:
  "wake_writes (relock_actions c e) = 0" "\<not> transferred (relock_actions c e)"
  "\<not> peer_closed (relock_actions c e)" "Perror s \<notin> set (relock_actions c e)"
  by (simp_all add: relock_actions_def wake_writes_def transferred_def peer_closed_def)

lemma read_actions_facts:
  "wake_writes (read_actions c fd e) = 0"
  "transferred (read_actions c fd e) = (read_issued c e \<and> 0 < read_ret e)"
  "peer_closed (read_actions c fd e) = (read_issued c e \<and> read_closes e)"
  "Perror s \<notin> set (read_actions c fd e)"
  by (simp_all add: read_actions_def read_call_def read_closes_def wake_writes_def
      transferred_def peer_closed_def)

lemma write_actions_facts:
  "wake_writes (write_actions c fd e) = 0"
  "transferred (write_actions c fd e) = (write_issued c e \<and> 0 < write_ret e)"
  "peer_closed (write_actions c fd e) = (write_issued c e \<and> write_closes e)"
  "Perror s \<notin> set (write_actions c fd e)"
  by (simp_all add: write_actions_def write_call_def write_closes_def wake_writes_def
      transferred_def peer_closed_def)

lemma single_call_facts:
  "wake_writes [read_call c fd e, Perror s, Unlock] = 0"
  "wake_writes [write_call c fd e, Perror s, Unlock] = 0"
  "wake_writes [wake_call c e, Perror s, Unlock] = 1"
  "wake_writes [wake_call c e] = 1"
  "wake_writes [Unlock] = 0"
  "wake_writes [Perror s] = 0"
  "transferred [read_call c fd e, Perror s, Unlock] = (0 < read_ret e)"
  "transferred [write_call c fd e, Perror s, Unlock] = (0 < write_ret e)"
  "\<not> transferred [wake_call c e, Perror s, Unlock]"
  "\<not> transferred [wake_call c e]"
  "\<not> transferred [Unlock]"
  "\<not> transferred [Perror s]"
  "\<not> peer_closed [wake_call c e]"
  "\<not> peer_closed [Unlock]"
  "wake_writes [] = 0"
  "\<not> transferred []"
  "\<not> peer_closed []"
  "Perror s \<noteq> read_call c fd e" "read_call c fd e \<noteq> Perror s"
  "Perror s \<noteq> write_call c fd e" "write_call c fd e \<noteq> Perror s"
  "Perror s \<noteq> wake_call c e" "wake_call c e \<noteq> Perror s"
  by (simp_all add: read_call_def write_call_def wake_call_def wake_writes_def transferred_def
      peer_closed_def)

lemmas trace_facts =
  wake_writes_append transferred_append peer_closed_append poll_actions_quiet
  relock_actions_quiet read_actions_facts write_actions_facts single_call_facts

lemma comm_loop_return:
  "fst (comm_iter c fd e) = Iter_return c'
   \<Longrightarrow> comm_loop c fd (e # es) = Some (Loop_return, c', snd (comm_iter c fd e))"
  by (cases "comm_iter c fd e") simp

lemma comm_loop_done:
  "fst (comm_iter c fd e) = Iter_next d c' \<Longrightarrow> d \<noteq> 0
   \<Longrightarrow> comm_loop c fd (e # es) = Some (Loop_done, c', snd (comm_iter c fd e))"
  by (cases "comm_iter c fd e") simp

lemma comm_iter_branches [case_names poll_fail read_fatal write_fatal wake_fail completes]:
  fixes c :: libvchan_t and fd :: int and e :: comm_env
  defines "c1 \<equiv> app_pre e c"
  defines "cl \<equiv> app_wait e (app_pre e c)"
  defines "c4 \<equiv> after_write (after_read cl e) e"
  obtains
    (poll_fail) "poll_failed e"
      "comm_iter c fd e = (Iter_return cl, poll_actions c1 fd @ [Perror ''poll comm_loop''])"
  | (read_fatal) "\<not> poll_failed e" "read_issued cl e" "read_fatal e"
      "comm_iter c fd e =
         (Iter_return cl,
          poll_actions c1 fd @ relock_actions cl e
          @ [read_call cl fd e, Perror ''read from socket'', Unlock])"
  | (write_fatal) "\<not> poll_failed e" "\<not> (read_issued cl e \<and> read_fatal e)"
      "write_issued cl e" "write_fatal e"
      "comm_iter c fd e =
         (Iter_return (after_read cl e),
          poll_actions c1 fd @ relock_actions cl e @ read_actions cl fd e
          @ [write_call cl fd e, Perror ''write to socket'', Unlock])"
  | (wake_fail) "\<not> poll_failed e" "\<not> (read_issued cl e \<and> read_fatal e)"
      "\<not> (write_issued cl e \<and> write_fatal e)" "notify_due cl e" "pipe_ret e \<noteq> 1"
      "comm_iter c fd e =
         (Iter_return c4,
          poll_actions c1 fd @ relock_actions cl e @ read_actions cl fd e @ write_actions cl fd e
          @ [wake_call cl e, Perror ''write'', Unlock])"
  | (completes) "\<not> poll_failed e" "\<not> (read_issued cl e \<and> read_fatal e)"
      "\<not> (write_issued cl e \<and> write_fatal e)" "\<not> (notify_due cl e \<and> pipe_ret e \<noteq> 1)"
      "comm_iter c fd e =
         (Iter_next
            (if shutdown cl \<noteq> 0 \<and> ring_filled (write_ring c4) = 0
                \<or> read_issued cl e \<and> read_closes e \<or> write_issued cl e \<and> write_closes e
             then 1 else 0)
            c4,
          poll_actions c1 fd @ relock_actions cl e @ read_actions cl fd e @ write_actions cl fd e
          @ (if notify_due cl e then [wake_call cl e] else [])
          @ [Unlock])"
proof -
  note eq = comm_iter_eq [of c fd e, folded cl_def, folded c1_def c4_def]
  show ?thesis
  proof (cases "poll_failed e")
    case True
    then show ?thesis using poll_fail eq by simp
  next
    case pf: False
    show ?thesis
    proof (cases "read_issued cl e \<and> read_fatal e")
      case True
      then show ?thesis using read_fatal pf eq by simp
    next
      case rf: False
      show ?thesis
      proof (cases "write_issued cl e \<and> write_fatal e")
        case True
        then show ?thesis using write_fatal pf rf eq by simp
      next
        case wf: False
        show ?thesis
        proof (cases "notify_due cl e \<and> pipe_ret e \<noteq> 1")
          case True
          then show ?thesis using wake_fail pf rf wf eq by simp
        next
          case False
          have "comm_iter c fd e =
             (Iter_next
               (if shutdown cl \<noteq> 0 \<and> ring_filled (write_ring c4) = 0
                   \<or> read_issued cl e \<and> read_closes e \<or> write_issued cl e \<and> write_closes e
                then 1 else 0)
               c4,
              poll_actions c1 fd @ relock_actions cl e @ read_actions cl fd e
              @ write_actions cl fd e @ (if notify_due cl e then [wake_call cl e] else [])
              @ [Unlock])"
            unfolding eq using pf rf wf False by (simp only: if_False)
          then show ?thesis using completes pf rf wf False by blast
        qed
      qed
    qed
  qed
qed


lemma wake_failure_returns:
  assumes "wake_writes (snd (comm_iter c fd e)) = 1" and "pipe_ret e \<noteq> 1"
  shows "fst (comm_iter c fd e)
         = Iter_return (after_write (after_read (app_wait e (app_pre e c)) e) e)"
proof (cases rule: comm_iter_branches [of e c fd])
  case poll_fail
  with assms show ?thesis by (simp add: trace_facts)
next
  case read_fatal
  with assms show ?thesis by (simp add: trace_facts)
next
  case write_fatal
  with assms show ?thesis by (simp add: trace_facts)
next
  case wake_fail
  then show ?thesis by simp
next
  case completes
  with assms show ?thesis by (simp add: trace_facts split: if_splits)
qed

subsection \<open>Evaluating the examples\<close>

lemmas outcome_defs =
  poll_failed_def read_issued_def write_issued_def read_closes_def write_closes_def
  read_fatal_def write_fatal_def after_read_def after_write_def read_call_def write_call_def
  read_actions_def write_actions_def notify_due_def wake_call_def wake_writes_def
  transferred_def peer_closed_def

lemmas body_defs =
  comm_iter_def sock_read_def sock_write_def notify_peer_def poll_actions_def
  relock_actions_def poll_interest_def POLLIN_def POLLOUT_def ring_available_def
  ring_filled_def ring_advance_tail_def ring_advance_head_def Let_def

subsection \<open>C7: the wake byte\<close>

text \<open>
  C7, as amended: in any single iteration of \<open>comm_loop\<close> at most one byte is written to
  the peer-wake pipe, and the write is made if and only if the socket read or the socket
  write of that iteration moved a positive number of bytes and the iteration was not
  ended before by a fatal error of the socket write; if the write of the wake byte does
  not return 1, \<open>comm_loop\<close> returns at once: the loop does not end through \<open>done\<close>.
\<close>

theorem wake_byte_at_most_once:
  "wake_writes (snd (comm_iter c fd e)) \<le> 1
   \<and> (wake_writes (snd (comm_iter c fd e)) = 1)
      = (transferred (snd (comm_iter c fd e))
         \<and> Perror ''write to socket'' \<notin> set (snd (comm_iter c fd e)))
   \<and> (wake_writes (snd (comm_iter c fd e)) = 1 \<and> pipe_ret e \<noteq> 1
        \<longrightarrow> comm_loop c fd (e # es)
            = Some (Loop_return, after_write (after_read (app_wait e (app_pre e c)) e) e,
                    snd (comm_iter c fd e)))"
proof -
  have third: "wake_writes (snd (comm_iter c fd e)) = 1 \<and> pipe_ret e \<noteq> 1
        \<longrightarrow> comm_loop c fd (e # es)
            = Some (Loop_return, after_write (after_read (app_wait e (app_pre e c)) e) e,
                    snd (comm_iter c fd e))"
    using wake_failure_returns [of c fd e] comm_loop_return by blast
  have "wake_writes (snd (comm_iter c fd e)) \<le> 1
   \<and> (wake_writes (snd (comm_iter c fd e)) = 1)
      = (transferred (snd (comm_iter c fd e))
         \<and> Perror ''write to socket'' \<notin> set (snd (comm_iter c fd e)))"
  proof (cases rule: comm_iter_branches [of e c fd])
    case poll_fail
    then show ?thesis by (simp add: trace_facts)
  next
    case read_fatal
    then show ?thesis by (simp add: trace_facts read_fatal_def)
  next
    case write_fatal
    then show ?thesis by (simp add: trace_facts)
  next
    case wake_fail
    then show ?thesis
      by (simp add: trace_facts notify_due_def)
  next
    case completes
    then show ?thesis
      by (simp add: trace_facts notify_due_def)
  qed
  with third show ?thesis by blast
qed


theorem wake_byte_at_most_once_witness:
  "wake_writes (snd (comm_iter ctrl_example 3 env_wake_fault)) = 1
   \<and> pipe_ret env_wake_fault \<noteq> 1
   \<and> transferred (snd (comm_iter ctrl_example 3 env_wake_fault))
   \<and> map_option fst (comm_loop ctrl_example 3 [env_wake_fault]) = Some Loop_return"
  using wake_byte_at_most_once [of ctrl_example 3 env_wake_fault "[]"]
  by (simp add: ctrl_example_def env_idle_def env_wake_fault_def body_defs outcome_defs)

text \<open>
  C7 as stated fails: on \<open>ctrl_example\<close>, when \<open>read\<close> delivers 5 bytes and
  \<open>write\<close> then fails with ECONNRESET (an errno other than EAGAIN, EWOULDBLOCK and
  EPIPE), the 5 bytes are committed to the inbound ring and no byte is written to the
  peer-wake pipe.
\<close>

theorem wake_byte_missing_counterexample:
  "transferred (snd (comm_iter ctrl_example 3 env_write_fault))
   \<and> wake_writes (snd (comm_iter ctrl_example 3 env_write_fault)) = 0
   \<and> \<not> ((wake_writes (snd (comm_iter ctrl_example 3 env_write_fault)) = 1)
          = transferred (snd (comm_iter ctrl_example 3 env_write_fault)))"
  by (simp add: ctrl_example_def env_idle_def env_write_fault_def body_defs outcome_defs)

subsection \<open>C4: the interest set\<close>

text \<open>
  C4: every iteration of \<open>comm_loop\<close> starts by taking the lock, releasing it and
  calling \<open>poll\<close> without a timeout, in this order; the events asked for the socket
  are computed from the rings as the control block holds them under that lock: POLLIN
  is asked if and only if \<open>ring_available (read_ring ctrl) > 0\<close>, POLLOUT if and
  only if \<open>ring_filled (write_ring ctrl) > 0\<close>, and nothing else is asked.
\<close>

theorem poll_interest_from_ring_occupancy:
  "take 3 (snd (comm_iter c fd e))
     = [Lock, Unlock,
        Poll [(fd, poll_interest (app_pre e c)), (fst (user_event_pipe (app_pre e c)), POLLIN)]
          (- 1)]
   \<and> (poll_interest ctrl AND POLLIN \<noteq> 0) = (0 < ring_available (read_ring ctrl))
   \<and> (poll_interest ctrl AND POLLOUT \<noteq> 0) = (0 < ring_filled (write_ring ctrl))
   \<and> poll_interest ctrl
       = (if 0 < ring_available (read_ring ctrl) then POLLIN else 0)
         OR (if 0 < ring_filled (write_ring ctrl) then POLLOUT else 0)"
proof -
  have "take 3 (snd (comm_iter c fd e)) = poll_actions (app_pre e c) fd"
    by (cases rule: comm_iter_branches [of e c fd]) (simp_all add: poll_actions_def)
  then show ?thesis
    by (simp add: poll_actions_def poll_interest_def POLLIN_def POLLOUT_def)
qed

subsection \<open>C9: the mutex\<close>

text \<open>
  C9: \<open>comm_loop\<close> never returns while it holds the mutex. Along the actions of any
  run that returns, whichever way (the loop ended by \<open>done\<close>, \<open>poll\<close> failed, a fatal
  error of \<open>read\<close> or \<open>write\<close>, a failed write of the wake byte), the thread never locks
  the mutex while it holds it, never unlocks it while it does not, and does not hold
  it at the end.
\<close>

theorem comm_loop_returns_without_mutex:
  "comm_loop c fd es = Some (x, c', tr) \<Longrightarrow> lock_run False tr = Some False"
proof (induction es arbitrary: c x c' tr)
  case Nil
  then show ?case by simp
next
  case (Cons e es)
  obtain r t where it: "comm_iter c fd e = (r, t)" by (cases "comm_iter c fd e")
  have t: "lock_run False t = Some False" using comm_iter_lock [of c fd e] it by simp
  show ?case
  proof (cases r)
    case (Iter_return c1)
    with Cons.prems it t show ?thesis by simp
  next
    case (Iter_next d c1)
    show ?thesis
    proof (cases "d \<noteq> 0")
      case True
      with Cons.prems it t Iter_next show ?thesis by simp
    next
      case False
      with Cons.prems it Iter_next obtain t' where
        rest: "comm_loop c1 fd es = Some (x, c', t')" and tr: "tr = t @ t'"
        by (auto split: option.splits)
      from Cons.IH [OF rest] t tr show ?thesis by (simp add: lock_run_append)
    qed
  qed
qed

theorem comm_loop_returns_without_mutex_witness:
  "comm_loop ctrl_example 3 [env_write2, env_write3] \<noteq> None
   \<and> lock_run False (snd (snd (the (comm_loop ctrl_example 3 [env_write2, env_write3]))))
       = Some False"
proof -
  have ne: "comm_loop ctrl_example 3 [env_write2, env_write3] \<noteq> None"
    by (simp add: ctrl_example_def env_idle_def env_write2_def env_write3_def body_defs)
  then obtain x c' tr where
    run: "comm_loop ctrl_example 3 [env_write2, env_write3] = Some (x, c', tr)"
    by (cases "comm_loop ctrl_example 3 [env_write2, env_write3]") auto
  from comm_loop_returns_without_mutex [OF run] ne run show ?thesis by simp
qed

subsection \<open>C10: change_state\<close>

text \<open>
  C10: \<open>change_state\<close> stores the new state into the control block, under the lock,
  whatever the write of the wake byte returns: a failed write adds a diagnostic and
  nothing else. In the loop, on the contrary, an iteration whose write of the wake byte
  fails returns from \<open>comm_loop\<close>.
\<close>

theorem change_state_stores_state_despite_wake_failure:
  "state (fst (change_state c st r)) = st
   \<and> fst (change_state c st r) = c\<lparr>state := st\<rparr>
   \<and> snd (change_state c st r)
       = [Lock, SetState st, PipeWrite (snd (socket_event_pipe c)) r]
         @ (if r = 1 then [] else [Perror ''write'']) @ [Unlock]
   \<and> lock_run False (snd (change_state c st r)) = Some False
   \<and> (wake_writes (snd (comm_iter c fd e)) = 1 \<and> pipe_ret e \<noteq> 1
        \<longrightarrow> (\<exists>c'. fst (comm_iter c fd e) = Iter_return c')
            \<and> map_option fst (comm_loop c fd (e # es)) = Some Loop_return)"
proof -
  have "wake_writes (snd (comm_iter c fd e)) = 1 \<and> pipe_ret e \<noteq> 1
        \<longrightarrow> (\<exists>c'. fst (comm_iter c fd e) = Iter_return c')
            \<and> map_option fst (comm_loop c fd (e # es)) = Some Loop_return"
    using wake_failure_returns [of c fd e] comm_loop_return [of c fd e _ es] by auto
  then show ?thesis by (simp add: change_state_def)
qed

theorem change_state_stores_state_despite_wake_failure_witness:
  "state (fst (change_state ctrl_example VCHAN_DISCONNECTED (- 1))) = VCHAN_DISCONNECTED
   \<and> wake_writes (snd (comm_iter ctrl_example 3 env_wake_fault)) = 1
   \<and> pipe_ret env_wake_fault \<noteq> 1
   \<and> map_option fst (comm_loop ctrl_example 3 [env_wake_fault]) = Some Loop_return"
  using change_state_stores_state_despite_wake_failure
    [of ctrl_example VCHAN_DISCONNECTED "- 1" 3 env_wake_fault "[]"]
  by (simp add: ctrl_example_def env_idle_def env_wake_fault_def body_defs outcome_defs)

subsection \<open>C1: shutdown waits for the outbound ring\<close>

lemma ring_filled_0_iff: "ring_ok r \<Longrightarrow> (ring_filled r = 0) = (ring_count r = 0)"
  by (auto simp add: ring_filled_def ring_ok_def min_def)

lemma shutdown_after: "shutdown (after_write (after_read c e) e) = shutdown c"
  by (simp add: after_read_def after_write_def)

lemma iter_done_by_shutdown:
  assumes "fst (comm_iter c fd e) = Iter_next d c'" and "d \<noteq> 0"
    and "\<not> peer_closed (snd (comm_iter c fd e))"
  shows "shutdown (app_wait e (app_pre e c)) \<noteq> 0" and "shutdown c' \<noteq> 0"
    and "ring_filled (write_ring c') = 0"
proof -
  have "shutdown (app_wait e (app_pre e c)) \<noteq> 0 \<and> shutdown c' \<noteq> 0
        \<and> ring_filled (write_ring c') = 0"
  proof (cases rule: comm_iter_branches [of e c fd])
    case completes
    with assms show ?thesis
      by (auto simp add: trace_facts shutdown_after split: if_splits)
  qed (use assms in simp_all)
  then show "shutdown (app_wait e (app_pre e c)) \<noteq> 0" and "shutdown c' \<noteq> 0"
    and "ring_filled (write_ring c') = 0" by simp_all
qed

lemma comm_loop_done_by_shutdown:
  "comm_loop c fd es = Some (Loop_done, c', tr) \<Longrightarrow> \<not> peer_closed tr
   \<Longrightarrow> shutdown c' \<noteq> 0 \<and> ring_filled (write_ring c') = 0"
proof (induction es arbitrary: c tr)
  case Nil
  then show ?case by simp
next
  case (Cons e es)
  obtain r t where it: "comm_iter c fd e = (r, t)" by (cases "comm_iter c fd e")
  show ?case
  proof (cases r)
    case (Iter_return c1)
    with Cons.prems it show ?thesis by simp
  next
    case (Iter_next d c1)
    show ?thesis
    proof (cases "d \<noteq> 0")
      case True
      with Cons.prems it Iter_next have "c' = c1" "tr = t" by simp_all
      with iter_done_by_shutdown [of c fd e d c1] it Iter_next True Cons.prems(2)
      show ?thesis by simp
    next
      case False
      with Cons.prems it Iter_next obtain t' where
        rest: "comm_loop c1 fd es = Some (Loop_done, c', t')" and tr: "tr = t @ t'"
        by (auto split: option.splits)
      from Cons.prems(2) tr have "\<not> peer_closed t'" by (simp add: peer_closed_append)
      from Cons.IH [OF rest this] show ?thesis .
    qed
  qed
qed

text \<open>
  C1: in an iteration of \<open>comm_loop\<close> that sets \<open>done\<close> although neither the read nor
  the write of that iteration did (no read of 0 bytes, no connection reset, no broken
  pipe), shutdown was requested and \<open>ring_filled (write_ring ctrl)\<close> is 0 at the end
  of the iteration, where the loop stops: a requested shutdown does not end the loop
  while the outbound ring holds bytes.
\<close>

theorem shutdown_ends_loop_only_when_drained:
  assumes "fst (comm_iter c fd e) = Iter_next d c'" and "d \<noteq> 0"
    and "\<not> peer_closed (snd (comm_iter c fd e))"
  shows "shutdown (app_wait e (app_pre e c)) \<noteq> 0
         \<and> ring_filled (write_ring c') = 0
         \<and> (ring_ok (write_ring c') \<longrightarrow> ring_count (write_ring c') = 0)
         \<and> comm_loop c fd (e # es) = Some (Loop_done, c', snd (comm_iter c fd e))"
proof -
  note D = iter_done_by_shutdown [OF assms]
  have stop: "comm_loop c fd (e # es) = Some (Loop_done, c', snd (comm_iter c fd e))"
    by (rule comm_loop_done [OF assms(1,2)])
  have "ring_ok (write_ring c') \<longrightarrow> ring_count (write_ring c') = 0"
    using D(3) ring_filled_0_iff by blast
  with D(1,3) stop show ?thesis by blast
qed

theorem shutdown_ends_loop_only_when_drained_witness:
  "fst (comm_iter (ctrl_example\<lparr>write_ring := \<lparr>ring_size = 8, ring_start = 6, ring_count = 2\<rparr>\<rparr>)
         3 env_write2)
     = Iter_next 1
         (ctrl_example\<lparr>shutdown := 1,
            write_ring := \<lparr>ring_size = 8, ring_start = 0, ring_count = 0\<rparr>\<rparr>)
   \<and> (1 :: int) \<noteq> 0
   \<and> \<not> peer_closed
         (snd (comm_iter
                 (ctrl_example\<lparr>write_ring := \<lparr>ring_size = 8, ring_start = 6, ring_count = 2\<rparr>\<rparr>)
                 3 env_write2))
   \<and> ring_filled \<lparr>ring_size = 8, ring_start = 0, ring_count = 0\<rparr> = 0
   \<and> map_option fst
        (comm_loop (ctrl_example\<lparr>write_ring := \<lparr>ring_size = 8, ring_start = 6, ring_count = 2\<rparr>\<rparr>)
           3 [env_write2])
       = Some Loop_done"
proof -
  let ?c = "ctrl_example\<lparr>write_ring := \<lparr>ring_size = 8, ring_start = 6, ring_count = 2\<rparr>\<rparr>"
  let ?c' = "ctrl_example\<lparr>shutdown := 1,
               write_ring := \<lparr>ring_size = 8, ring_start = 0, ring_count = 0\<rparr>\<rparr>"
  have a: "fst (comm_iter ?c 3 env_write2) = Iter_next 1 ?c'"
    by (simp add: ctrl_example_def env_idle_def env_write2_def body_defs)
  have b: "(1 :: int) \<noteq> 0" by simp
  have c: "\<not> peer_closed (snd (comm_iter ?c 3 env_write2))"
    by (simp add: ctrl_example_def env_idle_def env_write2_def body_defs outcome_defs)
  from shutdown_ends_loop_only_when_drained [OF a b c, of "[]"] a c show ?thesis
    by (simp add: ctrl_example_def)
qed

subsection \<open>C2: the results of read and write\<close>

lemma after_read_no_bytes: "read_ret e \<le> 0 \<Longrightarrow> after_read c e = c"
  by (simp add: after_read_def ring_advance_tail_0 max_def)

lemma after_write_no_bytes: "write_ret e \<le> 0 \<Longrightarrow> after_write c e = c"
  by (simp add: after_write_def write_issued_def ring_advance_head_0 max_def)

lemma rings_after:
  "read_ring (after_write (after_read c e) e) = read_ring (after_read c e)"
  "write_ring (after_write (after_read c e) e) = write_ring (after_write c e)"
  "write_ring (after_read c e) = write_ring c"
  "read_ring (after_write c e) = read_ring c"
  by (simp_all add: after_read_def after_write_def write_issued_def)

text \<open>
  C2: in an iteration of \<open>comm_loop\<close> whose \<open>poll\<close> did not fail, with \<open>ctrl\<close> the
  control block seen under the lock taken after \<open>poll\<close>:
  \<^item> the function returns from inside the body exactly when a read that was made is
    fatal (negative, errno none of EAGAIN, EWOULDBLOCK, ECONNRESET), or a write that was
    made is fatal (negative, errno none of EAGAIN, EWOULDBLOCK, EPIPE), or the wake byte
    was due and its write did not return 1;
  \<^item> otherwise \<open>done\<close> is 1 exactly when the read returned 0 or failed with ECONNRESET,
    or the write failed with EPIPE, or shutdown was requested and the outbound ring is
    drained, and else 0: EAGAIN and EWOULDBLOCK leave it alone;
  \<^item> a fatal read or write is followed by the diagnostic and the release of the lock,
    and by nothing else; \<open>comm_loop\<close> returns with it;
  \<^item> a read or write that returns nothing positive commits no bytes to its ring.
\<close>

theorem socket_results_classified:
  assumes "\<not> poll_failed e"
  shows
   "((\<exists>c'. fst (comm_iter c fd e) = Iter_return c')
       = (read_issued (app_wait e (app_pre e c)) e \<and> read_fatal e
          \<or> write_issued (app_wait e (app_pre e c)) e \<and> write_fatal e
          \<or> notify_due (app_wait e (app_pre e c)) e \<and> pipe_ret e \<noteq> 1))
    \<and> (fst (comm_iter c fd e) = Iter_next d c'
         \<longrightarrow> d = (if read_issued (app_wait e (app_pre e c)) e \<and> read_closes e
                       \<or> write_issued (app_wait e (app_pre e c)) e \<and> write_closes e
                       \<or> shutdown (app_wait e (app_pre e c)) \<noteq> 0
                         \<and> ring_filled (write_ring c') = 0
                    then 1 else 0)
             \<and> (read_ret e \<le> 0 \<longrightarrow> read_ring c' = read_ring (app_wait e (app_pre e c)))
             \<and> (write_ret e \<le> 0 \<longrightarrow> write_ring c' = write_ring (app_wait e (app_pre e c))))
    \<and> (read_issued (app_wait e (app_pre e c)) e \<and> read_fatal e
         \<longrightarrow> comm_iter c fd e
             = (Iter_return (app_wait e (app_pre e c)),
                poll_actions (app_pre e c) fd @ relock_actions (app_wait e (app_pre e c)) e
                @ [read_call (app_wait e (app_pre e c)) fd e, Perror ''read from socket'',
                   Unlock]))
    \<and> (\<not> (read_issued (app_wait e (app_pre e c)) e \<and> read_fatal e)
        \<and> write_issued (app_wait e (app_pre e c)) e \<and> write_fatal e
         \<longrightarrow> comm_iter c fd e
             = (Iter_return (after_read (app_wait e (app_pre e c)) e),
                poll_actions (app_pre e c) fd @ relock_actions (app_wait e (app_pre e c)) e
                @ read_actions (app_wait e (app_pre e c)) fd e
                @ [write_call (app_wait e (app_pre e c)) fd e, Perror ''write to socket'',
                   Unlock]))
    \<and> (fst (comm_iter c fd e) = Iter_return c'
         \<longrightarrow> comm_loop c fd (e # es) = Some (Loop_return, c', snd (comm_iter c fd e)))"
proof -
  let ?cl = "app_wait e (app_pre e c)"
  have A: "(\<exists>c'. fst (comm_iter c fd e) = Iter_return c')
       = (read_issued ?cl e \<and> read_fatal e \<or> write_issued ?cl e \<and> write_fatal e
          \<or> notify_due ?cl e \<and> pipe_ret e \<noteq> 1)"
    by (cases rule: comm_iter_branches [of e c fd]) (use assms in simp_all)
  have B: "fst (comm_iter c fd e) = Iter_next d c'
         \<longrightarrow> d = (if read_issued ?cl e \<and> read_closes e \<or> write_issued ?cl e \<and> write_closes e
                       \<or> shutdown ?cl \<noteq> 0 \<and> ring_filled (write_ring c') = 0
                    then 1 else 0)
             \<and> (read_ret e \<le> 0 \<longrightarrow> read_ring c' = read_ring ?cl)
             \<and> (write_ret e \<le> 0 \<longrightarrow> write_ring c' = write_ring ?cl)"
  proof (cases rule: comm_iter_branches [of e c fd])
    case completes
    show ?thesis
    proof
      assume n: "fst (comm_iter c fd e) = Iter_next d c'"
      from n completes(5) have c': "after_write (after_read ?cl e) e = c'"
        and d: "d = (if shutdown ?cl \<noteq> 0 \<and> ring_filled (write_ring c') = 0
                        \<or> read_issued ?cl e \<and> read_closes e
                        \<or> write_issued ?cl e \<and> write_closes e
                     then 1 else 0)"
        by auto
      have r: "read_ret e \<le> 0 \<longrightarrow> read_ring c' = read_ring ?cl"
        by (simp add: c' [symmetric] rings_after after_read_no_bytes)
      have w: "write_ret e \<le> 0 \<longrightarrow> write_ring c' = write_ring ?cl"
        by (simp add: c' [symmetric] rings_after after_write_no_bytes)
      have "d = (if read_issued ?cl e \<and> read_closes e \<or> write_issued ?cl e \<and> write_closes e
                       \<or> shutdown ?cl \<noteq> 0 \<and> ring_filled (write_ring c') = 0
                    then 1 else 0)"
        unfolding d by (rule if_cong) auto
      with r w show "d = (if read_issued ?cl e \<and> read_closes e
                       \<or> write_issued ?cl e \<and> write_closes e
                       \<or> shutdown ?cl \<noteq> 0 \<and> ring_filled (write_ring c') = 0
                    then 1 else 0)
             \<and> (read_ret e \<le> 0 \<longrightarrow> read_ring c' = read_ring ?cl)
             \<and> (write_ret e \<le> 0 \<longrightarrow> write_ring c' = write_ring ?cl)"
        by (intro conjI)
    qed
  qed simp_all
  have C: "read_issued ?cl e \<and> read_fatal e
         \<longrightarrow> comm_iter c fd e
             = (Iter_return ?cl,
                poll_actions (app_pre e c) fd @ relock_actions ?cl e
                @ [read_call ?cl fd e, Perror ''read from socket'', Unlock])"
    by (cases rule: comm_iter_branches [of e c fd]) (use assms in simp_all)
  have D: "\<not> (read_issued ?cl e \<and> read_fatal e) \<and> write_issued ?cl e \<and> write_fatal e
         \<longrightarrow> comm_iter c fd e
             = (Iter_return (after_read ?cl e),
                poll_actions (app_pre e c) fd @ relock_actions ?cl e @ read_actions ?cl fd e
                @ [write_call ?cl fd e, Perror ''write to socket'', Unlock])"
    by (cases rule: comm_iter_branches [of e c fd]) (use assms in simp_all)
  have F: "fst (comm_iter c fd e) = Iter_return c'
         \<longrightarrow> comm_loop c fd (e # es) = Some (Loop_return, c', snd (comm_iter c fd e))"
    using comm_loop_return by blast
  show ?thesis by (intro conjI A B C D F)
qed


theorem socket_results_classified_witness:
  "\<not> poll_failed env_write_fault
   \<and> read_issued ctrl_example env_write_fault \<and> \<not> read_fatal env_write_fault
   \<and> write_issued ctrl_example env_write_fault \<and> write_fatal env_write_fault
   \<and> fst (comm_iter ctrl_example 3 env_write_fault)
       = Iter_return (after_read ctrl_example env_write_fault)
   \<and> last (snd (comm_iter ctrl_example 3 env_write_fault)) = Unlock
   \<and> map_option fst (comm_loop ctrl_example 3 [env_write_fault]) = Some Loop_return"
proof -
  have np: "\<not> poll_failed env_write_fault"
    by (simp add: ctrl_example_def env_idle_def env_write_fault_def outcome_defs)
  from socket_results_classified [OF np, of ctrl_example 3 _ _ "[]"] np show ?thesis
    by (simp add: ctrl_example_def env_idle_def env_write_fault_def body_defs outcome_defs)
qed

subsection \<open>C8: the size of a socket call\<close>

lemma ring_advance_tail_ok:
  "ring_ok r \<Longrightarrow> 0 \<le> n \<Longrightarrow> n \<le> ring_available r \<Longrightarrow> ring_ok (ring_advance_tail r n)"
  by (auto simp add: ring_ok_def ring_available_def ring_advance_tail_def split: if_splits)

lemma ring_advance_head_ok:
  "ring_ok r \<Longrightarrow> 0 \<le> n \<Longrightarrow> n \<le> ring_filled r \<Longrightarrow> ring_ok (ring_advance_head r n)"
  by (auto simp add: ring_ok_def ring_filled_def ring_advance_head_def)

lemma ring_runs_bounded:
  "ring_ok r \<Longrightarrow> ring_filled r \<le> int (ring_count r)
     \<and> ring_filled r \<le> int (ring_size r - ring_start r)
     \<and> ring_available r \<le> int (ring_size r - ring_count r)"
  by (auto simp add: ring_ok_def ring_filled_def ring_available_def)

lemmas piece_defs =
  poll_actions_def relock_actions_def read_actions_def write_actions_def read_call_def
  write_call_def wake_call_def

text \<open>
  C8: in an iteration of \<open>comm_loop\<close>, with \<open>ctrl\<close> the control block seen under the
  lock taken after \<open>poll\<close>: a \<open>read\<close> is made on the socket only when
  \<open>ring_available (read_ring ctrl)\<close> is positive and asks for exactly that many bytes;
  a \<open>write\<close> is made only when \<open>ring_filled (write_ring ctrl)\<close> is positive and offers
  exactly that many bytes; the ring is then advanced by the number of bytes the call
  moved, 0 when its result is not positive, which is no more than was asked whenever
  the system call returns no more than it was asked for; and an iteration that reaches
  its end leaves the rings advanced by these amounts.
\<close>

theorem socket_calls_bounded_by_contiguous_run:
  "(SockRead f n r er \<in> set (snd (comm_iter c fd e))
      \<longrightarrow> f = fd \<and> n = ring_available (read_ring (app_wait e (app_pre e c))) \<and> 0 < n
          \<and> r = read_ret e)
   \<and> (SockWrite f n r er \<in> set (snd (comm_iter c fd e))
      \<longrightarrow> f = fd \<and> n = ring_filled (write_ring (app_wait e (app_pre e c))) \<and> 0 < n
          \<and> r = write_ret e)
   \<and> (AdvanceTail k \<in> set (snd (comm_iter c fd e))
      \<longrightarrow> read_call (app_wait e (app_pre e c)) fd e \<in> set (snd (comm_iter c fd e))
          \<and> k = max 0 (read_ret e)
          \<and> (read_ret e \<le> ring_available (read_ring (app_wait e (app_pre e c)))
               \<longrightarrow> k \<le> ring_available (read_ring (app_wait e (app_pre e c)))))
   \<and> (AdvanceHead k \<in> set (snd (comm_iter c fd e))
      \<longrightarrow> write_call (app_wait e (app_pre e c)) fd e \<in> set (snd (comm_iter c fd e))
          \<and> k = max 0 (write_ret e)
          \<and> (write_ret e \<le> ring_filled (write_ring (app_wait e (app_pre e c)))
               \<longrightarrow> k \<le> ring_filled (write_ring (app_wait e (app_pre e c)))))
   \<and> (fst (comm_iter c fd e) = Iter_next d c'
      \<longrightarrow> read_ring c'
            = (if read_issued (app_wait e (app_pre e c)) e
               then ring_advance_tail (read_ring (app_wait e (app_pre e c))) (max 0 (read_ret e))
               else read_ring (app_wait e (app_pre e c)))
          \<and> write_ring c'
            = (if write_issued (app_wait e (app_pre e c)) e
               then ring_advance_head (write_ring (app_wait e (app_pre e c)))
                      (max 0 (write_ret e))
               else write_ring (app_wait e (app_pre e c))))"
proof -
  let ?cl = "app_wait e (app_pre e c)"
  let ?tr = "snd (comm_iter c fd e)"
  have R: "SockRead f n r er \<in> set ?tr
      \<longrightarrow> f = fd \<and> n = ring_available (read_ring ?cl) \<and> 0 < n \<and> r = read_ret e"
    by (cases rule: comm_iter_branches [of e c fd])
      (simp_all add: piece_defs read_issued_def split: if_splits)
  have W: "SockWrite f n r er \<in> set ?tr
      \<longrightarrow> f = fd \<and> n = ring_filled (write_ring ?cl) \<and> 0 < n \<and> r = write_ret e"
    by (cases rule: comm_iter_branches [of e c fd])
      (simp_all add: piece_defs write_issued_def split: if_splits)
  have T: "AdvanceTail k \<in> set ?tr
      \<longrightarrow> read_call ?cl fd e \<in> set ?tr \<and> k = max 0 (read_ret e)
          \<and> (read_ret e \<le> ring_available (read_ring ?cl)
               \<longrightarrow> k \<le> ring_available (read_ring ?cl))"
    by (cases rule: comm_iter_branches [of e c fd])
      (simp_all add: piece_defs read_issued_def split: if_splits)
  have H: "AdvanceHead k \<in> set ?tr
      \<longrightarrow> write_call ?cl fd e \<in> set ?tr \<and> k = max 0 (write_ret e)
          \<and> (write_ret e \<le> ring_filled (write_ring ?cl)
               \<longrightarrow> k \<le> ring_filled (write_ring ?cl))"
    by (cases rule: comm_iter_branches [of e c fd])
      (simp_all add: piece_defs write_issued_def split: if_splits)
  have S: "fst (comm_iter c fd e) = Iter_next d c'
      \<longrightarrow> read_ring c'
            = (if read_issued ?cl e
               then ring_advance_tail (read_ring ?cl) (max 0 (read_ret e))
               else read_ring ?cl)
          \<and> write_ring c'
            = (if write_issued ?cl e
               then ring_advance_head (write_ring ?cl) (max 0 (write_ret e))
               else write_ring ?cl)"
  proof (cases rule: comm_iter_branches [of e c fd])
    case completes
    show ?thesis
    proof
      assume "fst (comm_iter c fd e) = Iter_next d c'"
      with completes(5) have c': "after_write (after_read ?cl e) e = c'" by simp
      show "read_ring c'
            = (if read_issued ?cl e
               then ring_advance_tail (read_ring ?cl) (max 0 (read_ret e))
               else read_ring ?cl)
          \<and> write_ring c'
            = (if write_issued ?cl e
               then ring_advance_head (write_ring ?cl) (max 0 (write_ret e))
               else write_ring ?cl)"
        unfolding c' [symmetric] rings_after by (simp add: after_read_def after_write_def)
    qed
  qed simp_all
  show ?thesis by (intro conjI R W T H S)
qed


theorem socket_calls_bounded_by_contiguous_run_witness:
  "SockRead 3 8 5 EAGAIN \<in> set (snd (comm_iter ctrl_example 3 env_read_write))
   \<and> AdvanceTail 5 \<in> set (snd (comm_iter ctrl_example 3 env_read_write))
   \<and> SockWrite 3 2 2 EAGAIN \<in> set (snd (comm_iter ctrl_example 3 env_read_write))
   \<and> AdvanceHead 2 \<in> set (snd (comm_iter ctrl_example 3 env_read_write))
   \<and> fst (comm_iter ctrl_example 3 env_read_write)
       = Iter_next 0
           (ctrl_example\<lparr>read_ring := \<lparr>ring_size = 8, ring_start = 0, ring_count = 5\<rparr>,
              write_ring := \<lparr>ring_size = 8, ring_start = 0, ring_count = 3\<rparr>\<rparr>)
   \<and> ring_available (read_ring (app_wait env_read_write (app_pre env_read_write ctrl_example)))
       = 8
   \<and> ring_filled (write_ring (app_wait env_read_write (app_pre env_read_write ctrl_example)))
       = 2
   \<and> max 0 (read_ret env_read_write) = 5
   \<and> max 0 (write_ret env_read_write) = 2
   \<and> ring_count (write_ring ctrl_example) = 5"
proof -
  let ?c' = "ctrl_example\<lparr>read_ring := \<lparr>ring_size = 8, ring_start = 0, ring_count = 5\<rparr>,
               write_ring := \<lparr>ring_size = 8, ring_start = 0, ring_count = 3\<rparr>\<rparr>"
  have a: "SockRead 3 8 5 EAGAIN \<in> set (snd (comm_iter ctrl_example 3 env_read_write))"
    and b: "AdvanceTail 5 \<in> set (snd (comm_iter ctrl_example 3 env_read_write))"
    and c: "SockWrite 3 2 2 EAGAIN \<in> set (snd (comm_iter ctrl_example 3 env_read_write))"
    and d: "AdvanceHead 2 \<in> set (snd (comm_iter ctrl_example 3 env_read_write))"
    and e: "fst (comm_iter ctrl_example 3 env_read_write) = Iter_next 0 ?c'"
    by (simp_all add: ctrl_example_def env_idle_def env_read_write_def body_defs)
  note T = socket_calls_bounded_by_contiguous_run
    [where c = ctrl_example and fd = 3 and e = env_read_write]
  from T [where f = 3 and n = 8 and r = 5 and er = EAGAIN, THEN conjunct1, THEN mp, OF a]
  have r: "ring_available
             (read_ring (app_wait env_read_write (app_pre env_read_write ctrl_example))) = 8"
    by simp
  from T [where f = 3 and n = 2 and r = 2 and er = EAGAIN, THEN conjunct2, THEN conjunct1,
      THEN mp, OF c]
  have w: "ring_filled
             (write_ring (app_wait env_read_write (app_pre env_read_write ctrl_example))) = 2"
    by simp
  from T [where k = 5, THEN conjunct2, THEN conjunct2, THEN conjunct1, THEN mp, OF b]
  have t: "max 0 (read_ret env_read_write) = 5" by simp
  from T [where k = 2, THEN conjunct2, THEN conjunct2, THEN conjunct2, THEN conjunct1,
      THEN mp, OF d]
  have h: "max 0 (write_ret env_read_write) = 2" by simp
  have n: "ring_count (write_ring ctrl_example) = 5" by (simp add: ctrl_example_def)
  show ?thesis by (intro conjI a b c d e r w t h n)
qed

subsection \<open>C3: shutdown before a peer connects\<close>

lemma wait_peer_quiet:
  "quiet c ws \<Longrightarrow>
   wait_peer c fd (ws @ rest)
     = (case wait_peer (after_waits c ws) fd rest of
          None \<Rightarrow> None
        | Some (r, tr) \<Rightarrow> Some (r, wait_actions fd (length ws) @ tr))"
proof (induction ws arbitrary: c)
  case Nil
  show ?case by (simp split: option.splits)
next
  case (Cons w ws)
  from Cons.prems have q: "quiet (wait_app w c) ws" by simp
  from Cons.prems Cons.IH [OF q] show ?case
    by (simp add: Let_def split: option.splits)
qed

lemma wait_peer_shutdown:
  assumes "\<not> (wait_poll_ret w < 0 \<and> wait_poll_errno w \<noteq> EINTR)"
    and "shutdown (wait_app w c) \<noteq> 0"
  shows "wait_peer c fd (w # rest) = Some (Wait_return (wait_app w c), wait_actions fd 1)"
  using assms by (simp add: Let_def)

text \<open>
  C3, as amended: if shutdown is requested while the server driver waits for a peer and
  no client connects, the driver returns in the poll cycle in which it reads the flag,
  after any number of cycles in which nothing happened. Its actions are those of the
  wait cycles only: it never makes the state CONNECTED, and it does not write the
  state at all. The control block is left as the application made it; the state is
  not set to DISCONNECTED.
\<close>

theorem server_exits_on_shutdown_before_connection:
  assumes "quiet c ws"
    and "\<not> (wait_poll_ret w < 0 \<and> wait_poll_errno w \<noteq> EINTR)"
    and "shutdown (wait_app w (after_waits c ws)) \<noteq> 0"
    and "waits env = ws @ w # rest"
  shows "run_server c sfd env
           = Some (wait_app w (after_waits c ws), wait_actions sfd (length ws + 1))
         \<and> libvchan__server c 0 env
           = Some (wait_app w (after_waits c ws),
                   Sigmask 0 # wait_actions (socket_fd c) (length ws + 1))
         \<and> SetState st \<notin> set (wait_actions sfd (length ws + 1))"
proof -
  have w: "wait_peer c fd (waits env)
        = Some (Wait_return (wait_app w (after_waits c ws)), wait_actions fd (length ws + 1))"
    for fd
  proof -
    have "wait_actions fd (length ws) @ wait_actions fd 1 = wait_actions fd (length ws + 1)"
      by (induction ws) simp_all
    then show ?thesis
      using wait_peer_quiet [OF assms(1), of fd "w # rest"] wait_peer_shutdown [OF assms(2,3)]
      by (simp add: assms(4) del: wait_peer.simps wait_actions.simps)
  qed
  have r: "run_server c fd env
        = Some (wait_app w (after_waits c ws), wait_actions fd (length ws + 1))" for fd
    by (simp add: run_server_def w del: wait_actions.simps)
  have n: "SetState st \<notin> set (wait_actions sfd n)" for n
    by (induction n) simp_all
  show ?thesis
    using r [of sfd] r [of "socket_fd c"] n by (simp add: libvchan__server_def del: wait_actions.simps)
qed

theorem server_exits_on_shutdown_before_connection_witness:
  "quiet ctrl_waiting [wait_idle]
   \<and> \<not> (wait_poll_ret wait_shutdown < 0 \<and> wait_poll_errno wait_shutdown \<noteq> EINTR)
   \<and> shutdown (wait_app wait_shutdown (after_waits ctrl_waiting [wait_idle])) \<noteq> 0
   \<and> waits server_env_no_client = [wait_idle] @ wait_shutdown # []
   \<and> libvchan__server ctrl_waiting 0 server_env_no_client
       = Some (ctrl_waiting\<lparr>shutdown := 1\<rparr>,
               [Sigmask 0, Poll [(3, 1)] 100, Lock, Unlock, Poll [(3, 1)] 100, Lock, Unlock])"
proof -
  have a: "quiet ctrl_waiting [wait_idle]"
    and b: "\<not> (wait_poll_ret wait_shutdown < 0 \<and> wait_poll_errno wait_shutdown \<noteq> EINTR)"
    and c: "shutdown (wait_app wait_shutdown (after_waits ctrl_waiting [wait_idle])) \<noteq> 0"
    and d: "waits server_env_no_client = [wait_idle] @ wait_shutdown # []"
    by (simp_all add: ctrl_waiting_def ctrl_example_def wait_idle_def wait_shutdown_def
        server_env_no_client_def)
  from server_exits_on_shutdown_before_connection [OF a b c d, of 3] a b c d show ?thesis
    by (simp add: ctrl_waiting_def ctrl_example_def wait_idle_def wait_shutdown_def
        POLLIN_def CONNECT_DELAY_MS_def)
qed

text \<open>
  C3 as stated fails: on a channel in state WAITING to which no client connects, when
  the application requests the shutdown during the second poll cycle, the server thread
  returns and the state is still WAITING.
\<close>

theorem server_final_state_counterexample:
  "libvchan__server ctrl_waiting 0 server_env_no_client
     = Some (ctrl_waiting\<lparr>shutdown := 1\<rparr>,
             [Sigmask 0, Poll [(3, 1)] 100, Lock, Unlock, Poll [(3, 1)] 100, Lock, Unlock])
   \<and> state (ctrl_waiting\<lparr>shutdown := 1\<rparr>) = VCHAN_WAITING
   \<and> state (ctrl_waiting\<lparr>shutdown := 1\<rparr>) \<noteq> VCHAN_DISCONNECTED"
  by (simp add: libvchan__server_def run_server_def ctrl_waiting_def ctrl_example_def
      wait_idle_def wait_shutdown_def server_env_no_client_def POLLIN_def
      CONNECT_DELAY_MS_def Let_def)

subsection \<open>C5 and C6: libvchan__connect\<close>

lemma connect_loop_transient:
  "list_all transient rs \<Longrightarrow>
   connect_loop fd (rs @ rest)
     = (case connect_loop fd rest of
          None \<Rightarrow> None
        | Some (ok, tr) \<Rightarrow> Some (ok, retry_actions fd rs @ tr))"
proof (induction rs)
  case Nil
  show ?case by (simp split: option.splits)
next
  case (Cons a rs)
  obtain r er where a: "a = (r, er)" by (cases a)
  from Cons.prems a have "r \<noteq> 0" "er = ECONNREFUSED \<or> er = ENOENT" "list_all transient rs"
    by simp_all
  with Cons.IH a show ?case
    by (auto split: option.splits)
qed

text \<open>
  C5: the delay between two connect attempts of \<open>libvchan__connect\<close> has
  \<open>tv_sec = 0\<close> and \<open>tv_nsec = CONNECT_DELAY_MS * 1000 = 100000\<close>: 100000
  nanoseconds, which is 100 microseconds and not the 100 milliseconds of the
  constant's name; it is what the retry loop sleeps between a refused connect and
  the next one.
\<close>

theorem connect_delay_is_100_microseconds:
  "tv_sec connect_delay = 0
   \<and> tv_nsec connect_delay = sint (CONNECT_DELAY_MS * 1000)
   \<and> tv_nsec connect_delay = 100000
   \<and> timespec_ns connect_delay = 100 * 1000
   \<and> timespec_ns connect_delay \<noteq> sint CONNECT_DELAY_MS * 1000000
   \<and> connect_loop fd [(- 1, ECONNREFUSED), (0, er)]
       = Some (True, [Connect fd (- 1) ECONNREFUSED,
                      Nanosleep \<lparr>tv_sec = 0, tv_nsec = 100000\<rparr>,
                      Connect fd 0 er])"
  by (simp add: connect_delay_def timespec_ns_def CONNECT_DELAY_MS_def)

text \<open>
  C6: \<open>libvchan__connect\<close> calls \<open>connect\<close> again, after the delay, exactly when the
  call failed with ECONNREFUSED or ENOENT. After any number of such failures the
  function has not returned: the number of attempts has no bound and nothing ends the
  loop but the answer of \<open>connect\<close>. On a failure with any other errno it closes the
  descriptor and returns -1 without another attempt. When \<open>connect\<close> succeeds, the
  descriptor is switched to non-blocking mode, and then returned.
\<close>

theorem connect_retries_refused_or_missing:
  assumes "0 \<le> socket_ret env" and "list_all transient rs"
  shows
   "(connect_rets env = rs \<longrightarrow> libvchan__connect env = None)
    \<and> libvchan__connect
         \<lparr>socket_ret = socket_ret env, connect_rets = replicate n (- 1, ECONNREFUSED),
          connect_fcntl_ret = connect_fcntl_ret env\<rparr> = None
    \<and> (connect_rets env = rs @ (r, er) # rest \<and> r \<noteq> 0 \<and> er \<noteq> ECONNREFUSED \<and> er \<noteq> ENOENT
         \<longrightarrow> libvchan__connect env
             = Some (- 1, Socket (socket_ret env) # retry_actions (socket_ret env) rs
                          @ [Connect (socket_ret env) r er, Perror ''connect'',
                             Close (socket_ret env)]))
    \<and> (connect_rets env = rs @ (0, er) # rest \<and> connect_fcntl_ret env = 0
         \<longrightarrow> libvchan__connect env
             = Some (socket_ret env,
                     Socket (socket_ret env) # retry_actions (socket_ret env) rs
                     @ [Connect (socket_ret env) 0 er, Fcntl (socket_ret env) O_NONBLOCK]))
    \<and> (connect_rets env = rs @ (0, er) # rest \<and> connect_fcntl_ret env \<noteq> 0
         \<longrightarrow> libvchan__connect env
             = Some (- 1,
                     Socket (socket_ret env) # retry_actions (socket_ret env) rs
                     @ [Connect (socket_ret env) 0 er, Fcntl (socket_ret env) O_NONBLOCK,
                        Perror ''fcntl socket'', Close (socket_ret env)]))"
proof -
  note L = connect_loop_transient [OF assms(2), of "socket_ret env"]
  have A: "connect_rets env = rs \<longrightarrow> libvchan__connect env = None"
    using L [of "[]"] assms(1) by (simp add: libvchan__connect_def Let_def)
  have "list_all transient (replicate n (- 1, ECONNREFUSED))"
    by (induction n) simp_all
  from connect_loop_transient [OF this, of "socket_ret env" "[]"] assms(1)
  have B: "libvchan__connect
         \<lparr>socket_ret = socket_ret env, connect_rets = replicate n (- 1, ECONNREFUSED),
          connect_fcntl_ret = connect_fcntl_ret env\<rparr> = None"
    by (simp add: libvchan__connect_def Let_def)
  have C: "connect_rets env = rs @ (r, er) # rest \<and> r \<noteq> 0 \<and> er \<noteq> ECONNREFUSED \<and> er \<noteq> ENOENT
         \<longrightarrow> libvchan__connect env
             = Some (- 1, Socket (socket_ret env) # retry_actions (socket_ret env) rs
                          @ [Connect (socket_ret env) r er, Perror ''connect'',
                             Close (socket_ret env)])"
    using L [of "(r, er) # rest"] assms(1) by (simp add: libvchan__connect_def Let_def)
  have D: "connect_rets env = rs @ (0, er) # rest \<and> connect_fcntl_ret env = 0
         \<longrightarrow> libvchan__connect env
             = Some (socket_ret env,
                     Socket (socket_ret env) # retry_actions (socket_ret env) rs
                     @ [Connect (socket_ret env) 0 er, Fcntl (socket_ret env) O_NONBLOCK])"
    using L [of "(0, er) # rest"] assms(1) by (simp add: libvchan__connect_def Let_def)
  have E: "connect_rets env = rs @ (0, er) # rest \<and> connect_fcntl_ret env \<noteq> 0
         \<longrightarrow> libvchan__connect env
             = Some (- 1,
                     Socket (socket_ret env) # retry_actions (socket_ret env) rs
                     @ [Connect (socket_ret env) 0 er, Fcntl (socket_ret env) O_NONBLOCK,
                        Perror ''fcntl socket'', Close (socket_ret env)])"
    using L [of "(0, er) # rest"] assms(1) by (simp add: libvchan__connect_def Let_def)
  show ?thesis by (intro conjI A B C D E)
qed

theorem connect_retries_refused_or_missing_witness:
  "0 \<le> socket_ret connect_env_late_listener
   \<and> list_all transient [(- 1, ENOENT), (- 1, ECONNREFUSED)]
   \<and> connect_rets connect_env_late_listener
       = [(- 1, ENOENT), (- 1, ECONNREFUSED)] @ (0, EINTR) # []
   \<and> connect_fcntl_ret connect_env_late_listener = 0
   \<and> libvchan__connect connect_env_late_listener
       = Some (3, [Socket 3, Connect 3 (- 1) ENOENT, Nanosleep connect_delay,
                   Connect 3 (- 1) ECONNREFUSED, Nanosleep connect_delay,
                   Connect 3 0 EINTR, Fcntl 3 O_NONBLOCK])"
proof -
  have a: "0 \<le> socket_ret connect_env_late_listener"
    and b: "list_all transient [(- 1, ENOENT), (- 1, ECONNREFUSED)]"
    by (simp_all add: connect_env_late_listener_def)
  from connect_retries_refused_or_missing
    [OF a b, where n = 0 and r = "- 1" and er = EINTR and rest = "[]"] a b
  show ?thesis
    by (simp add: connect_env_late_listener_def)
qed

end
